theory Spec2Isabelle
  imports Complex_Main "HOL-Library.Signed_Division"
begin

section \<open>Floating-point values\<close>

text \<open>
  AreaCon computes in C++ \<^verbatim>\<open>double\<close>.  A \<^verbatim>\<open>double\<close> is modelled as a real number or one of
  the three special values of IEEE 754.  Arithmetic on finite values is the exact arithmetic
  of the reals (rounding and overflow are idealised away); arithmetic that involves a
  special value, and every division by zero, follows IEEE 754.  Zero is unsigned: a
  non-zero finite value divided by zero is the infinity with the sign of the dividend, as
  for the positive zero that \<^verbatim>\<open>sqrt\<close> and \<^verbatim>\<open>fabs\<close> return.  Comparisons with \<open>NaN\<close> are
  false, so \<open>deq\<close> (the operator \<^verbatim>\<open>==\<close>) is not HOL equality.

  The statements proved below are chosen so that they do not depend on the idealisation.
  They rest on comparisons, on the special values and on the control flow; or they state
  a computed value with the operations of the code in the order of the code; or their
  hypotheses and concrete inputs keep the operands where binary floating-point arithmetic
  is exact (small dyadic numbers, scaling by a power of two within the normal range).
\<close>

datatype double = Fin real | PInf | MInf | NaN

instantiation double :: "{plus,minus,uminus,times,inverse,abs,ord}"
begin

fun uminus_double :: "double \<Rightarrow> double" where
  "uminus_double (Fin a) = Fin (- a)"
| "uminus_double PInf = MInf"
| "uminus_double MInf = PInf"
| "uminus_double NaN = NaN"

fun plus_double :: "double \<Rightarrow> double \<Rightarrow> double" where
  "plus_double (Fin a) (Fin b) = Fin (a + b)"
| "plus_double NaN _ = NaN"
| "plus_double _ NaN = NaN"
| "plus_double PInf MInf = NaN"
| "plus_double MInf PInf = NaN"
| "plus_double PInf _ = PInf"
| "plus_double _ PInf = PInf"
| "plus_double MInf _ = MInf"
| "plus_double _ MInf = MInf"

definition minus_double :: "double \<Rightarrow> double \<Rightarrow> double" where
  "minus_double a b = a + (- b)"

fun times_double :: "double \<Rightarrow> double \<Rightarrow> double" where
  "times_double (Fin a) (Fin b) = Fin (a * b)"
| "times_double NaN _ = NaN"
| "times_double _ NaN = NaN"
| "times_double PInf (Fin b) = (if b = 0 then NaN else if 0 < b then PInf else MInf)"
| "times_double MInf (Fin b) = (if b = 0 then NaN else if 0 < b then MInf else PInf)"
| "times_double (Fin a) PInf = (if a = 0 then NaN else if 0 < a then PInf else MInf)"
| "times_double (Fin a) MInf = (if a = 0 then NaN else if 0 < a then MInf else PInf)"
| "times_double PInf PInf = PInf"
| "times_double MInf MInf = PInf"
| "times_double PInf MInf = MInf"
| "times_double MInf PInf = MInf"

fun divide_double :: "double \<Rightarrow> double \<Rightarrow> double" where
  "divide_double (Fin a) (Fin b) =
     (if b \<noteq> 0 then Fin (a / b)
      else if a = 0 then NaN else if 0 < a then PInf else MInf)"
| "divide_double NaN _ = NaN"
| "divide_double _ NaN = NaN"
| "divide_double (Fin a) PInf = Fin 0"
| "divide_double (Fin a) MInf = Fin 0"
| "divide_double PInf (Fin b) = (if 0 \<le> b then PInf else MInf)"
| "divide_double MInf (Fin b) = (if 0 \<le> b then MInf else PInf)"
| "divide_double PInf PInf = NaN"
| "divide_double PInf MInf = NaN"
| "divide_double MInf PInf = NaN"
| "divide_double MInf MInf = NaN"

definition inverse_double :: "double \<Rightarrow> double" where
  "inverse_double a = divide (Fin 1) a"

fun abs_double :: "double \<Rightarrow> double" where
  "abs_double (Fin a) = Fin \<bar>a\<bar>"
| "abs_double PInf = PInf"
| "abs_double MInf = PInf"
| "abs_double NaN = NaN"

fun less_double :: "double \<Rightarrow> double \<Rightarrow> bool" where
  "less_double (Fin a) (Fin b) = (a < b)"
| "less_double NaN _ = False"
| "less_double _ NaN = False"
| "less_double _ MInf = False"
| "less_double PInf _ = False"
| "less_double MInf _ = True"
| "less_double _ PInf = True"

fun less_eq_double :: "double \<Rightarrow> double \<Rightarrow> bool" where
  "less_eq_double (Fin a) (Fin b) = (a \<le> b)"
| "less_eq_double NaN _ = False"
| "less_eq_double _ NaN = False"
| "less_eq_double MInf _ = True"
| "less_eq_double _ PInf = True"
| "less_eq_double _ MInf = False"
| "less_eq_double PInf _ = False"

instance ..

end

text \<open>The operator \<^verbatim>\<open>==\<close>; \<^verbatim>\<open>a != b\<close> is \<open>\<not> deq a b\<close>.\<close>

fun deq :: "double \<Rightarrow> double \<Rightarrow> bool" where
  "deq NaN _ = False"
| "deq _ NaN = False"
| "deq a b = (a = b)"

fun isinf :: "double \<Rightarrow> bool" where
  "isinf PInf = True"
| "isinf MInf = True"
| "isinf _ = False"

fun dsqrt :: "double \<Rightarrow> double" where
  "dsqrt (Fin a) = (if a < 0 then NaN else Fin (sqrt a))"
| "dsqrt PInf = PInf"
| "dsqrt MInf = NaN"
| "dsqrt NaN = NaN"

text \<open>The macro \<^verbatim>\<open>INFINITY\<close>.\<close>

definition INFINITY :: double where
  "INFINITY = PInf"

section \<open>Errors\<close>

text \<open>
  Every \<^verbatim>\<open>throw std::runtime_error\<close> of the source is a value of \<open>error\<close>, named after the
  condition that raises it; \<open>LengthError\<close> is the \<^verbatim>\<open>std::length_error\<close> of a vector
  constructed with a negative size.  Four values stand for undefined behaviour of C++,
  where the model stops instead of inventing a value: \<open>OutOfRange\<close> for an unchecked
  \<^verbatim>\<open>operator[]\<close> access outside a vector, \<open>UninitializedRead\<close> for a read of an array cell
  that was never written, \<open>BadCast\<close> for the conversion of an infinity or \<open>NaN\<close> to \<^verbatim>\<open>int\<close>,
  and \<open>DivisionByZero\<close> for an integer division by zero.
\<close>

datatype error =
    TooFewVertices
  | InfiniteVertex
  | DuplicateVertices
  | ZeroNominalArea
  | PolyNotInitialized
  | ValuesNotSet
  | BadSpacing
  | VolumeLowerBoundTooLarge
  | DesiredAreaSize
  | DesiredAreaTooSmall
  | NormalizedAreaTooSmall
  | LengthError
  | OutOfRange
  | UninitializedRead
  | BadCast
  | DivisionByZero

text \<open>Sequencing of fallible steps, and a checked read of a vector at an \<^verbatim>\<open>int\<close> index.\<close>

definition ebind :: "error + 'a \<Rightarrow> ('a \<Rightarrow> error + 'b) \<Rightarrow> error + 'b" where
  "ebind m f = (case m of Inl e \<Rightarrow> Inl e | Inr a \<Rightarrow> f a)"

definition vec_at :: "'a list \<Rightarrow> int \<Rightarrow> error + 'a" where
  "vec_at xs i = (if 0 \<le> i \<and> i < int (length xs) then Inr (xs ! nat i) else Inl OutOfRange)"

definition vec_put :: "'a list \<Rightarrow> int \<Rightarrow> 'a \<Rightarrow> error + 'a list" where
  "vec_put xs i v = (if 0 \<le> i \<and> i < int (length xs) then Inr (xs[nat i := v]) else Inl OutOfRange)"

text \<open>A counted loop \<^verbatim>\<open>for (int i = 0; i < n; i++)\<close> over a state, stopping at the first error.\<close>

fun for_loop :: "int list \<Rightarrow> (int \<Rightarrow> 's \<Rightarrow> error + 's) \<Rightarrow> 's \<Rightarrow> error + 's" where
  "for_loop [] body s = Inr s"
| "for_loop (i # is) body s = ebind (body i s) (for_loop is body)"

section \<open>Point\<close>

text \<open>
  The class \<^verbatim>\<open>Point\<close> has the public members \<^verbatim>\<open>x\<close> and \<^verbatim>\<open>y\<close>, here the selectors \<open>xc\<close> and
  \<open>yc\<close>.  The static member \<^verbatim>\<open>Robustness_Constant\<close> is a process-wide variable; every
  function that reads it takes it as its first argument \<open>RC\<close>.  The non-static overloads
  only forward to the static functions modelled here.
\<close>

datatype Point = Point (xc: double) (yc: double)

text \<open>The default constructor \<^verbatim>\<open>Point(x = INFINITY, y = INFINITY)\<close>.\<close>

definition Point_default :: Point where
  "Point_default = Point INFINITY INFINITY"

definition IsEqual :: "Point \<Rightarrow> Point \<Rightarrow> bool" where
  "IsEqual Test1 Test2 = (if deq (xc Test1) (xc Test2) \<and> deq (yc Test1) (yc Test2) then True else False)"

definition Distance :: "Point \<Rightarrow> Point \<Rightarrow> double" where
  "Distance Test1 Test2 =
     dsqrt ((xc Test1 - xc Test2) * (xc Test1 - xc Test2) + (yc Test1 - yc Test2) * (yc Test1 - yc Test2))"

definition Norm :: "Point \<Rightarrow> double" where
  "Norm Test = dsqrt (xc Test * xc Test + yc Test * yc Test)"

definition AddPoints :: "Point \<Rightarrow> Point \<Rightarrow> Point" where
  "AddPoints Test1 Test2 = Point (xc Test1 + xc Test2) (yc Test1 + yc Test2)"

definition FlipDirection :: "Point \<Rightarrow> Point" where
  "FlipDirection p = Point (- xc p) (- yc p)"

definition Mult :: "double \<Rightarrow> Point \<Rightarrow> Point" where
  "Mult factor p = Point (factor * xc p) (factor * yc p)"

definition FindPerpDirection :: "Point \<Rightarrow> Point \<Rightarrow> double \<Rightarrow> Point" where
  "FindPerpDirection Test1 Test2 Nrm =
     (let distance = Distance Test1 Test2 in
      if deq distance (Fin 0) then Point (Fin 0) (Fin 0)
      else Point ((yc Test2 - yc Test1) / distance * Nrm) ((xc Test1 - xc Test2) / distance * Nrm))"

definition PerpDistanceToLine :: "double \<Rightarrow> Point \<Rightarrow> Point \<Rightarrow> Point \<Rightarrow> double" where
  "PerpDistanceToLine RC Test1 Test2 Test3 =
     (if \<bar>yc Test2 - yc Test1\<bar> < RC then \<bar>yc Test3 - yc Test2\<bar>
      else if \<bar>xc Test2 - xc Test1\<bar> < RC then \<bar>xc Test3 - xc Test2\<bar>
      else \<bar>(yc Test2 - yc Test1) * xc Test3 - (xc Test2 - xc Test1) * yc Test3
             + xc Test2 * yc Test1 - yc Test2 * xc Test1\<bar> / Distance Test1 Test2)"

definition AreCollinear :: "double \<Rightarrow> Point \<Rightarrow> Point \<Rightarrow> Point \<Rightarrow> bool" where
  "AreCollinear RC Test1 Test2 Test3 =
     (let max_dist = Distance Test1 Test2;
          tolerance = RC;
          temp = Distance Test2 Test3;
          max_dist = (if temp > max_dist then temp else max_dist);
          temp = Distance Test1 Test3;
          max_dist = (if temp > max_dist then temp else max_dist)
      in if PerpDistanceToLine RC Test1 Test2 Test3 / max_dist < tolerance then True else False)"

definition AreBetween :: "double \<Rightarrow> Point \<Rightarrow> Point \<Rightarrow> Point \<Rightarrow> bool" where
  "AreBetween RC Test1 Test2 Test3 =
     (if \<not> AreCollinear RC Test1 Test2 Test3 then False
      else let distance = Distance Test3 Test1 / Distance Test2 Test1 in
        if distance > Fin 1 \<or> distance < Fin 0 then False
        else if (xc Test3 - xc Test1 \<le> Fin 0 \<and> xc Test2 - xc Test1 \<le> Fin 0)
              \<or> (xc Test3 - xc Test1 \<ge> Fin 0 \<and> xc Test2 - xc Test1 \<ge> Fin 0) then True
        else False)"

section \<open>Poly\<close>

text \<open>
  The private member \<^verbatim>\<open>NPoly\<close> is assigned \<^verbatim>\<open>(int) Vertices.size()\<close> wherever \<^verbatim>\<open>Vertices\<close> is
  assigned (the constructor and \<^verbatim>\<open>SetVertices\<close>), so it is the derived quantity \<open>NPoly\<close>
  and \<^verbatim>\<open>Vertices[ii]\<close> for \<^verbatim>\<open>ii < NPoly\<close> is a walk along the list.
\<close>

record Poly =
  Vertices :: "Point list"
  minx :: double
  miny :: double
  maxx :: double
  maxy :: double

definition NPoly :: "Poly \<Rightarrow> int" where
  "NPoly P = int (length (Vertices P))"

definition GetNVertices :: "Poly \<Rightarrow> int" where
  "GetNVertices P = NPoly P"

text \<open>
  \<^verbatim>\<open>InitializePoly\<close>: the loop over \<^verbatim>\<open>ii\<close> checks vertex \<^verbatim>\<open>ii\<close> for an infinite coordinate,
  widens the extrema, and compares the vertex with every later one (the loop over \<^verbatim>\<open>jj\<close>).
  The state of the loop is \<open>(minx, miny, maxx, maxy)\<close>.
\<close>

fun InitializePoly_jj :: "Point \<Rightarrow> Point list \<Rightarrow> error + unit" where
  "InitializePoly_jj v [] = Inr ()"
| "InitializePoly_jj v (w # ws) =
     (if IsEqual v w then Inl DuplicateVertices else InitializePoly_jj v ws)"

fun InitializePoly_ii ::
  "Point list \<Rightarrow> double \<times> double \<times> double \<times> double \<Rightarrow> error + double \<times> double \<times> double \<times> double" where
  "InitializePoly_ii [] e = Inr e"
| "InitializePoly_ii (v # vs) (mnx, mny, mxx, mxy) =
     (if isinf (xc v) \<or> isinf (yc v) then Inl InfiniteVertex
      else
        let mnx = (if xc v < mnx then xc v else mnx);
            mxx = (if xc v > mxx then xc v else mxx);
            mny = (if yc v < mny then yc v else mny);
            mxy = (if yc v > mxy then yc v else mxy)
        in ebind (InitializePoly_jj v vs) (\<lambda>_. InitializePoly_ii vs (mnx, mny, mxx, mxy)))"

definition InitializePoly :: "Poly \<Rightarrow> error + Poly" where
  "InitializePoly P =
     (let P = P\<lparr>minx := INFINITY, maxx := - INFINITY, miny := INFINITY, maxy := - INFINITY\<rparr>;
          flag = (Vertices P = [])
      in if \<not> flag \<and> NPoly P < 3 then Inl TooFewVertices
         else if \<not> flag then
           ebind (InitializePoly_ii (Vertices P) (minx P, miny P, maxx P, maxy P))
             (\<lambda>(mnx, mny, mxx, mxy).
                if deq mnx mxx \<or> deq mny mxy then Inl ZeroNominalArea
                else Inr (P\<lparr>minx := mnx, miny := mny, maxx := mxx, maxy := mxy\<rparr>))
         else Inr P)"

text \<open>
  The constructor \<^verbatim>\<open>Poly(Vertices)\<close> stores the vertices and calls \<^verbatim>\<open>InitializePoly\<close>, which
  overwrites the four extrema before it reads them.
\<close>

definition Poly_ctor :: "Point list \<Rightarrow> error + Poly" where
  "Poly_ctor vs =
     InitializePoly \<lparr>Vertices = vs, minx = INFINITY, miny = INFINITY, maxx = - INFINITY, maxy = - INFINITY\<rparr>"

definition SetVertices :: "Poly \<Rightarrow> Point list \<Rightarrow> bool \<Rightarrow> error + Poly" where
  "SetVertices P vs GetExtrema =
     (let P = P\<lparr>Vertices := vs\<rparr> in
      if GetExtrema then InitializePoly P
      else let flag = (vs = []) in
        if \<not> flag \<and> NPoly P < 3 then Inl TooFewVertices else Inr P)"

text \<open>
  \<^verbatim>\<open>pnpoly\<close>: \<open>Test_1\<close> starts as the last vertex; the loop leaves with \<open>True\<close> at the first
  edge the test point is between the ends of, and otherwise flips \<open>value\<close> at each edge
  the ray to the left crosses.
\<close>

fun pnpoly_loop :: "double \<Rightarrow> Point \<Rightarrow> Point \<Rightarrow> Point list \<Rightarrow> bool \<Rightarrow> bool" where
  "pnpoly_loop RC Test Test_1 [] val = val"
| "pnpoly_loop RC Test Test_1 (Test_2 # rest) val =
     (if AreBetween RC Test_1 Test_2 Test then True
      else
        let val =
          (if ((yc Test_1 < yc Test \<and> yc Test \<le> yc Test_2) \<or> (yc Test \<le> yc Test_1 \<and> yc Test_2 < yc Test))
               \<and> (xc Test_1 \<le> xc Test \<or> xc Test_2 \<le> xc Test)
           then (if xc Test_1 + (yc Test - yc Test_1) * (xc Test_2 - xc Test_1) / (yc Test_2 - yc Test_1) < xc Test
                 then \<not> val else val)
           else val)
        in pnpoly_loop RC Test Test_2 rest val)"

definition pnpoly :: "double \<Rightarrow> Poly \<Rightarrow> Point \<Rightarrow> error + bool" where
  "pnpoly RC P Test =
     (if Vertices P = [] then Inl PolyNotInitialized
      else Inr (pnpoly_loop RC Test (last (Vertices P)) (Vertices P) False))"

section \<open>Density\<close>

text \<open>
  The class \<^verbatim>\<open>Density\<close> with the members its queries read.  Its extrema are \<open>Dminx\<close>, \<open>Dminy\<close>,
  \<open>Dmaxx\<close>, \<open>Dmaxy\<close> here (the names \<open>minx\<close>, ... are those of \<open>Poly\<close>), and the member \<^verbatim>\<open>Int\<close>
  of \<^verbatim>\<open>Int_Params\<close> is \<open>Int'\<close>.  \<^verbatim>\<open>int\<close> is the unbounded \<open>int\<close>: no claim depends on overflow.
\<close>

record Int_Params =
  Coefficient_a :: "double list"
  Coefficient_b :: "double list"
  Coefficient_c :: "double list"
  Coefficient_d :: "double list"
  Int' :: "double list"
  Intx :: "double list"
  Inty :: "double list"
  Unweighted_Area :: double

record Density =
  Region :: Poly
  Nx :: int
  Ny :: int
  dx :: double
  dy :: double
  Dminx :: double
  Dminy :: double
  Dmaxx :: double
  Dmaxy :: double
  Volume_Lower_Bound :: double
  Values :: "double list"
  GridInRegion :: "bool list"
  Integral :: Int_Params

definition SetVolumeLowerBound :: "Density \<Rightarrow> double \<Rightarrow> Density" where
  "SetVolumeLowerBound D VolumeLowerBound = D\<lparr>Volume_Lower_Bound := VolumeLowerBound\<rparr>"

definition GetGridInRegion :: "Density \<Rightarrow> bool list" where
  "GetGridInRegion D = GridInRegion D"

text \<open>
  The grid walk of \<^verbatim>\<open>CalculateWeightedArea\<close>.  The state of the loop over \<^verbatim>\<open>jj\<close> is
  \<open>(GridInPolyTemp, sum, y0)\<close>, that of the loop over \<^verbatim>\<open>ii\<close> is \<open>(GridInPolyTemp, sum, x0, y0)\<close>.
  The operator \<^verbatim>\<open>&&\<close> reads its operands from left to right and stops at the first false
  one.
\<close>

definition all_four :: "bool list \<Rightarrow> int \<Rightarrow> int \<Rightarrow> int \<Rightarrow> error + bool" where
  "all_four G N ii jj =
     ebind (vec_at G (ii * N + jj)) (\<lambda>g1. if \<not> g1 then Inr False else
     ebind (vec_at G ((ii - 1) * N + jj)) (\<lambda>g2. if \<not> g2 then Inr False else
     ebind (vec_at G ((ii - 1) * N + jj - 1)) (\<lambda>g3. if \<not> g3 then Inr False else
     vec_at G (ii * N + jj - 1))))"

definition WeightedArea_jj ::
  "double \<Rightarrow> Density \<Rightarrow> Poly \<Rightarrow> int \<Rightarrow> double \<Rightarrow> int \<Rightarrow> bool list \<times> double \<times> double
     \<Rightarrow> error + bool list \<times> double \<times> double" where
  "WeightedArea_jj RC D Test ii x0 jj = (\<lambda>(G, sum, y0).
     ebind
       (if y0 < miny Test \<or> y0 > maxy Test then
          ebind (vec_put G (ii * Ny D + jj) False) (\<lambda>G. Inr (G, sum))
        else
          ebind (pnpoly RC Test (Point x0 y0)) (\<lambda>inside.
            if inside then
              ebind (vec_put G (ii * Ny D + jj) True) (\<lambda>G.
                if ii > 0 \<and> jj > 0 then
                  ebind (all_four G (Ny D) ii jj) (\<lambda>b.
                    if b then
                      let index = (Ny D - 1) * (ii - 1) + jj - 1 in
                      ebind (vec_at (Int' (Integral D)) index) (\<lambda>v. Inr (G, sum + v))
                    else Inr (G, sum))
                else Inr (G, sum))
            else ebind (vec_put G (ii * Ny D + jj) False) (\<lambda>G. Inr (G, sum))))
       (\<lambda>(G, sum). Inr (G, sum, y0 + dy D)))"

definition WeightedArea_ii ::
  "double \<Rightarrow> Density \<Rightarrow> Poly \<Rightarrow> int \<Rightarrow> bool list \<times> double \<times> double \<times> double
     \<Rightarrow> error + bool list \<times> double \<times> double \<times> double" where
  "WeightedArea_ii RC D Test ii = (\<lambda>(G, sum, x0, y0).
     ebind
       (if x0 < minx Test \<or> x0 > maxx Test then
          ebind (for_loop [0 .. Ny D - 1] (\<lambda>jj G. vec_put G (ii * Ny D + jj) False) G)
            (\<lambda>G. Inr (G, sum, y0))
        else
          for_loop [0 .. Ny D - 1] (WeightedArea_jj RC D Test ii x0) (G, sum, Dminy D))
       (\<lambda>(G, sum, y0). Inr (G, sum, x0 + dx D, y0)))"

text \<open>The sum accumulated over the grid: the second component of the final loop state.\<close>

definition WeightedArea_sum :: "double \<Rightarrow> Density \<Rightarrow> Poly \<Rightarrow> error + double" where
  "WeightedArea_sum RC D Test =
     ebind (for_loop [0 .. Nx D - 1] (WeightedArea_ii RC D Test) (GetGridInRegion D, Fin 0, Dminx D, Dminy D))
       (\<lambda>(G, sum, x0, y0). Inr sum)"

definition CalculateWeightedArea :: "double \<Rightarrow> Density \<Rightarrow> Poly \<Rightarrow> error + double" where
  "CalculateWeightedArea RC D Test =
     (if Values D = [] then Inl ValuesNotSet
      else
        let size = GetNVertices Test in
        if size = 0 then Inr (Volume_Lower_Bound D)
        else
          ebind (WeightedArea_sum RC D Test) (\<lambda>sum.
            if sum \<ge> Volume_Lower_Bound D then Inr sum else Inr (Volume_Lower_Bound D)))"

text \<open>
  \<^verbatim>\<open>CalculateCentroid\<close> walks the grid in the same way and accumulates the two first
  moments; the state carries \<open>(sumx, sumy)\<close> in place of \<open>sum\<close>.
\<close>

definition Centroid_jj ::
  "double \<Rightarrow> Density \<Rightarrow> Poly \<Rightarrow> int \<Rightarrow> double \<Rightarrow> int \<Rightarrow> bool list \<times> (double \<times> double) \<times> double
     \<Rightarrow> error + bool list \<times> (double \<times> double) \<times> double" where
  "Centroid_jj RC D Test ii x0 jj = (\<lambda>(G, (sumx, sumy), y0).
     ebind
       (if y0 < miny Test \<or> y0 > maxy Test then
          ebind (vec_put G (ii * Ny D + jj) False) (\<lambda>G. Inr (G, (sumx, sumy)))
        else
          ebind (pnpoly RC Test (Point x0 y0)) (\<lambda>inside.
            if inside then
              ebind (vec_put G (ii * Ny D + jj) True) (\<lambda>G.
                if ii > 0 \<and> jj > 0 then
                  ebind (all_four G (Ny D) ii jj) (\<lambda>b.
                    if b then
                      let index = (Ny D - 1) * (ii - 1) + jj - 1 in
                      ebind (vec_at (Intx (Integral D)) index) (\<lambda>vx.
                      ebind (vec_at (Inty (Integral D)) index) (\<lambda>vy.
                        Inr (G, (sumx + vx, sumy + vy))))
                    else Inr (G, (sumx, sumy)))
                else Inr (G, (sumx, sumy)))
            else ebind (vec_put G (ii * Ny D + jj) False) (\<lambda>G. Inr (G, (sumx, sumy)))))
       (\<lambda>(G, s). Inr (G, s, y0 + dy D)))"

definition Centroid_ii ::
  "double \<Rightarrow> Density \<Rightarrow> Poly \<Rightarrow> int \<Rightarrow> bool list \<times> (double \<times> double) \<times> double \<times> double
     \<Rightarrow> error + bool list \<times> (double \<times> double) \<times> double \<times> double" where
  "Centroid_ii RC D Test ii = (\<lambda>(G, s, x0, y0).
     ebind
       (if x0 < minx Test \<or> x0 > maxx Test then
          ebind (for_loop [0 .. Ny D - 1] (\<lambda>jj G. vec_put G (ii * Ny D + jj) False) G)
            (\<lambda>G. Inr (G, s, y0))
        else
          for_loop [0 .. Ny D - 1] (Centroid_jj RC D Test ii x0) (G, s, Dminy D))
       (\<lambda>(G, s, y0). Inr (G, s, x0 + dx D, y0)))"

definition Centroid_sums :: "double \<Rightarrow> Density \<Rightarrow> Poly \<Rightarrow> error + double \<times> double" where
  "Centroid_sums RC D Test =
     ebind (for_loop [0 .. Nx D - 1] (Centroid_ii RC D Test)
              (GetGridInRegion D, (Fin 0, Fin 0), Dminx D, Dminy D))
       (\<lambda>(G, s, x0, y0). Inr s)"

definition CalculateCentroid :: "double \<Rightarrow> Density \<Rightarrow> Poly \<Rightarrow> double \<Rightarrow> error + Point" where
  "CalculateCentroid RC D Test Volume =
     (if Values D = [] then Inl ValuesNotSet
      else
        let size = GetNVertices Test in
        if size = 0 then Inr Point_default
        else
          ebind (Centroid_sums RC D Test) (\<lambda>(sumx, sumy).
            if Volume \<le> Volume_Lower_Bound D then Inr (Point (minx Test) (miny Test))
            else Inr (Point (sumx / Volume) (sumy / Volume))))"


text \<open>
  \<^verbatim>\<open>InterpolateValue\<close> and \<^verbatim>\<open>LineIntegral\<close>.  The cast \<^verbatim>\<open>(int)\<close> truncates towards zero, and so do
  \<^verbatim>\<open>/\<close> and \<^verbatim>\<open>%\<close> on \<^verbatim>\<open>int\<close> (\<open>sdiv\<close> and \<open>smod\<close>).
\<close>

fun to_int :: "double \<Rightarrow> error + int" where
  "to_int (Fin a) = Inr (if 0 \<le> a then \<lfloor>a\<rfloor> else \<lceil>a\<rceil>)"
| "to_int _ = Inl BadCast"

definition of_int_double :: "int \<Rightarrow> double" where
  "of_int_double i = Fin (of_int i)"

definition ConvertIndextoWorld :: "Density \<Rightarrow> int \<Rightarrow> error + Point" where
  "ConvertIndextoWorld D ii =
     (if Ny D = 0 then Inl DivisionByZero
      else
        let Index_x = ii sdiv Ny D; Index_y = ii smod Ny D in
        Inr (Point (Dminx D + of_int_double Index_x * dx D) (Dminy D + of_int_double Index_y * dy D)))"

definition InterpolateValue :: "Density \<Rightarrow> Point \<Rightarrow> error + double" where
  "InterpolateValue D Test =
     ebind (to_int ((xc Test - Dminx D) / dx D)) (\<lambda>i.
     ebind (to_int ((yc Test - Dminy D) / dy D)) (\<lambda>j.
     ebind (ConvertIndextoWorld D (i * Ny D + j)) (\<lambda>p.
       let (xr, i1) = (if i = Nx D - 1 then (Fin 0, i) else ((xc Test - xc p) / dx D, i + 1));
           (ys, j1) = (if j = Ny D - 1 then (Fin 0, j) else ((yc Test - yc p) / dy D, j + 1))
       in
     ebind (vec_at (Values D) (Ny D * i + j)) (\<lambda>val00.
     ebind (vec_at (Values D) (Ny D * i1 + j)) (\<lambda>val10.
     ebind (vec_at (Values D) (Ny D * i + j1)) (\<lambda>val01.
     ebind (vec_at (Values D) (Ny D * i1 + j1)) (\<lambda>val11.
       let val0s = val00 + (val01 - val00) * ys;
           valr1 = val01 + (val11 - val01) * xr;
           val1s = val10 + (val11 - val10) * ys;
           valr0 = val00 + (val10 - val00) * xr
       in Inr ((val0s + valr0 - val00) + xr * (val00 + val1s - val0s - val10)
               + ys * (val00 + valr0 - val01 - valr1) + xr * ys * (val01 + val10 - val00 - val11)))))))))"

text \<open>
  The loop \<^verbatim>\<open>for (double ii = 0; ii < 1 - spacing; ii += spacing)\<close> of \<^verbatim>\<open>LineIntegral\<close> is only
  reached when the check before it has passed, that is with a spacing \<open>s\<close> in \<open>(0, 1]\<close> or
  \<open>NaN\<close>.  With \<open>NaN\<close> its condition is false at once.  Otherwise the counter stays a real
  number; the loop function restates \<open>0 < s\<close> in its condition, which makes it terminate
  for every argument.  Its state is \<open>(sum, previous)\<close>, with \<open>sm\<close> for \<^verbatim>\<open>sum\<close>.  The counter of the
  code accumulates rounded sums, which can change the number of iterations (with the
  spacing 0.1 it runs once more than the real counter); the statements below take the value
  of \<^verbatim>\<open>LineIntegral\<close> as it is returned and evaluate it only with the spacing 1/2, where the
  counter is exact.
\<close>

function LineIntegral_loop ::
  "Density \<Rightarrow> real \<Rightarrow> Point \<Rightarrow> Point \<Rightarrow> real \<Rightarrow> double \<times> double \<Rightarrow> error + double \<times> double" where
  "LineIntegral_loop D s p1 p2 ii (sm, previous) =
     (if 0 < s \<and> ii < 1 - s then
        let Test = Point (xc p1 + (xc p2 - xc p1) * Fin (ii + s)) (yc p1 + (yc p2 - yc p1) * Fin (ii + s)) in
        ebind (InterpolateValue D Test) (\<lambda>previous2.
          LineIntegral_loop D s p1 p2 (ii + s) (sm + (previous + previous2), previous2))
      else Inr (sm, previous))"
  by pat_completeness auto
termination
proof (relation "measure (\<lambda>(D, s, p1, p2, ii, st). nat \<lceil>(1 - s - ii) / s\<rceil>)")
  show "wf (measure (\<lambda>(D, s, p1, p2, ii, st). nat \<lceil>(1 - s - ii) / s\<rceil>))"
    by simp
next
  fix D :: Density and s :: real and p1 p2 :: Point and ii :: real and sm previous :: double
    and x :: Point and xa :: double
  assume a: "0 < s \<and> ii < 1 - s"
  then have "(1 - s - (ii + s)) / s = (1 - s - ii) / s - 1"
    by (simp add: field_simps)
  moreover have "0 < (1 - s - ii) / s" using a by simp
  ultimately have "nat \<lceil>(1 - s - (ii + s)) / s\<rceil> < nat \<lceil>(1 - s - ii) / s\<rceil>"
    by (simp add: nat_less_iff)
  then show "((D, s, p1, p2, ii + s, sm + (previous + xa), xa), D, s, p1, p2, ii, sm, previous)
       \<in> measure (\<lambda>(D, s, p1, p2, ii, st). nat \<lceil>(1 - s - ii) / s\<rceil>)"
    by simp
qed

definition LineIntegral :: "Density \<Rightarrow> double \<Rightarrow> Point \<Rightarrow> Point \<Rightarrow> error + double" where
  "LineIntegral D spacing p1 p2 =
     (if Values D = [] then Inl ValuesNotSet
      else if spacing \<le> Fin 0 \<or> spacing > Fin 1 then Inl BadSpacing
      else
        ebind (InterpolateValue D p1) (\<lambda>previous.
        ebind (case spacing of
                 Fin s \<Rightarrow> LineIntegral_loop D s p1 p2 0 (Fin 0, previous)
               | _ \<Rightarrow> Inr (Fin 0, previous)) (\<lambda>(sum, previous).
          Inr (sum * spacing * Distance p1 p2 / Fin 2))))"

section \<open>Partition\<close>

text \<open>
  The members of \<^verbatim>\<open>Parameters\<close> and of \<^verbatim>\<open>Partition\<close>.  \<^verbatim>\<open>Alg_Params.Volume_Lower_Bound\<close> is
  \<open>Alg_Volume_Lower_Bound\<close> here (\<open>Volume_Lower_Bound\<close> is the member of \<open>Density\<close>).  An entry
  \<^verbatim>\<open>Graph[i][j]\<close> of a \<^verbatim>\<open>DelaunayGraph\<close>, an array of two points, is a pair.  A \<^verbatim>\<open>Mult_Array\<close> is
  allocated without initial values: it is the map of the cells written so far.
\<close>

record Parameters =
  line_int_step :: double
  weights_step :: double
  centers_step :: double
  volume_tolerance :: double
  convergence_criterion :: double
  max_iterations_volume :: int
  max_iterations_centers :: int
  Alg_Volume_Lower_Bound :: double
  Robustness_Constant :: double

record Partition =
  Centers :: "Point list"
  Covering :: "Poly list"
  Weights :: "double list"
  Alg_Params :: Parameters
  desired_area :: "double list"
  Prior :: Density
  NRegions :: int

record DelaunayGraph =
  Graph :: "(Point \<times> Point) list list"
  Graph_NRegions :: int

type_synonym Mult_Array = "int \<times> int \<Rightarrow> double option"

definition arr_at :: "Mult_Array \<Rightarrow> int \<Rightarrow> int \<Rightarrow> error + double" where
  "arr_at A i j = (case A (i, j) of None \<Rightarrow> Inl UninitializedRead | Some v \<Rightarrow> Inr v)"

definition graph_at :: "DelaunayGraph \<Rightarrow> int \<Rightarrow> int \<Rightarrow> error + Point \<times> Point" where
  "graph_at SharedEdges i j = ebind (vec_at (Graph SharedEdges) i) (\<lambda>row. vec_at row j)"

text \<open>
  \<^verbatim>\<open>CheckParams\<close>.  The first loop rejects an entry at or below the lower bound and sums the
  others; the second divides every entry by the sum and rejects a quotient below the
  bound.  The result carries the lines written to \<^verbatim>\<open>std::cout\<close>.
\<close>

fun CheckParams_sum :: "double \<Rightarrow> double list \<Rightarrow> double \<Rightarrow> error + double" where
  "CheckParams_sum VLB [] sm = Inr sm"
| "CheckParams_sum VLB (a # as) sm =
     (if a \<le> VLB then Inl DesiredAreaTooSmall else CheckParams_sum VLB as (sm + a))"

fun CheckParams_normalize :: "double \<Rightarrow> double \<Rightarrow> double list \<Rightarrow> error + double list" where
  "CheckParams_normalize VLB sm [] = Inr []"
| "CheckParams_normalize VLB sm (a # as) =
     (let a = a / sm in
      if a < VLB then Inl NormalizedAreaTooSmall
      else ebind (CheckParams_normalize VLB sm as) (\<lambda>as. Inr (a # as)))"

definition normalize_warning :: string where
  "normalize_warning = ''Warning: desired_areas not normalized; will be normalized automatically''"

definition CheckParams :: "Partition \<Rightarrow> error + Partition \<times> string list" where
  "CheckParams S =
     (let S = S\<lparr>Prior := SetVolumeLowerBound (Prior S) (Alg_Volume_Lower_Bound (Alg_Params S))\<rparr>;
          VLB = Alg_Volume_Lower_Bound (Alg_Params S);
          sum = Fin 0
      in
      if NRegions S \<noteq> 0 \<and> desired_area S = [] then
        (if VLB \<le> Fin 1 / of_int_double (NRegions S) then
           (if NRegions S < 0 then Inl LengthError
            else Inr (S\<lparr>desired_area := replicate (nat (NRegions S)) (Fin 1 / of_int_double (NRegions S))\<rparr>, []))
         else Inl VolumeLowerBoundTooLarge)
      else if int (length (desired_area S)) \<noteq> NRegions S then Inl DesiredAreaSize
      else
        ebind (CheckParams_sum VLB (desired_area S) sum) (\<lambda>sum.
          if \<not> deq sum (Fin 1) then
            ebind (CheckParams_normalize VLB sum (desired_area S)) (\<lambda>da.
              Inr (S\<lparr>desired_area := da\<rparr>, [normalize_warning]))
          else Inr (S, [])))"

text \<open>
  \<^verbatim>\<open>GradientStepCenter(volumes)\<close>: the state of the loop is \<open>(Centers, Error)\<close>.  The result is
  the updated partition and the returned \<^verbatim>\<open>Error\<close>.
\<close>

definition GradientStepCenter_ii ::
  "double \<Rightarrow> Partition \<Rightarrow> double list \<Rightarrow> int \<Rightarrow> Point list \<times> double \<Rightarrow> error + Point list \<times> double" where
  "GradientStepCenter_ii RC S volumes ii = (\<lambda>(Cs, Error).
     ebind (vec_at Cs ii) (\<lambda>c.
       let Center_ii = FlipDirection c in
     ebind (vec_at (Covering S) ii) (\<lambda>cov.
     ebind (vec_at volumes ii) (\<lambda>v.
     ebind (CalculateCentroid RC (Prior S) cov v) (\<lambda>Center.
       let Errorxy = AddPoints Center Center_ii;
           Error = Error + Norm Errorxy;
           Errorxy = Mult (centers_step (Alg_Params S)) Errorxy
       in
     ebind (vec_put Cs ii (AddPoints c Errorxy)) (\<lambda>Cs. Inr (Cs, Error)))))))"

definition GradientStepCenter :: "double \<Rightarrow> Partition \<Rightarrow> double list \<Rightarrow> error + Partition \<times> double" where
  "GradientStepCenter RC S volumes =
     ebind (for_loop [0 .. NRegions S - 1] (GradientStepCenter_ii RC S volumes) (Centers S, Fin 0))
       (\<lambda>(Cs, Error). Inr (S\<lparr>Centers := Cs\<rparr>, Error))"

text \<open>
  \<^verbatim>\<open>GradientStepWeights\<close>.  The loop over \<^verbatim>\<open>jj > ii\<close> fills row and column \<open>ii\<close> of the three
  arrays and adds to \<^verbatim>\<open>totals[ii]\<close>; the loop over \<^verbatim>\<open>jj < ii\<close> adds the terms whose cells
  earlier rows have written.  The state of the inner loops is
  \<open>(totals, integrals, dist, InvAreaDist)\<close>, that of the outer loop has \<open>Weights\<close> as well.
\<close>

definition GradientStepWeights_upper ::
  "Partition \<Rightarrow> double list \<Rightarrow> DelaunayGraph \<Rightarrow> int \<Rightarrow> int
     \<Rightarrow> double list \<times> Mult_Array \<times> Mult_Array \<times> Mult_Array
     \<Rightarrow> error + double list \<times> Mult_Array \<times> Mult_Array \<times> Mult_Array" where
  "GradientStepWeights_upper S volumes SharedEdges ii jj = (\<lambda>(totals, integrals, dist, InvAreaDist).
     ebind (vec_at (Centers S) ii) (\<lambda>ci.
     ebind (vec_at (Centers S) jj) (\<lambda>cj.
       let d = Distance ci cj;
           dist = dist((ii, jj) \<mapsto> d, (jj, ii) \<mapsto> d)
       in
     ebind (vec_at (desired_area S) jj) (\<lambda>dj.
     ebind (vec_at volumes jj) (\<lambda>vj.
     ebind (vec_at (desired_area S) ii) (\<lambda>di.
     ebind (vec_at volumes ii) (\<lambda>vi.
       let a = dj / vj - di / vi;
           InvAreaDist = InvAreaDist((ii, jj) \<mapsto> a, (jj, ii) \<mapsto> - a)
       in
     ebind (graph_at SharedEdges ii jj) (\<lambda>(e0, e1).
     ebind (if \<not> isinf (xc e1)
            then LineIntegral (Prior S) (line_int_step (Alg_Params S)) e0 e1
            else Inr (Fin 0)) (\<lambda>integral.
       let integrals = integrals((ii, jj) \<mapsto> integral, (jj, ii) \<mapsto> integral) in
     ebind (vec_at totals ii) (\<lambda>t.
     ebind (vec_put totals ii (t + a * (Fin 1 / d) * integral)) (\<lambda>totals.
       Inr (totals, integrals, dist, InvAreaDist))))))))))))"

definition GradientStepWeights_lower ::
  "int \<Rightarrow> int \<Rightarrow> double list \<times> Mult_Array \<times> Mult_Array \<times> Mult_Array
     \<Rightarrow> error + double list \<times> Mult_Array \<times> Mult_Array \<times> Mult_Array" where
  "GradientStepWeights_lower ii jj = (\<lambda>(totals, integrals, dist, InvAreaDist).
     ebind (vec_at totals ii) (\<lambda>t.
     ebind (arr_at InvAreaDist ii jj) (\<lambda>a.
     ebind (arr_at dist ii jj) (\<lambda>d.
     ebind (arr_at integrals ii jj) (\<lambda>integral.
     ebind (vec_put totals ii (t + a * (Fin 1 / d) * integral)) (\<lambda>totals.
       Inr (totals, integrals, dist, InvAreaDist)))))))"

definition GradientStepWeights_ii ::
  "Partition \<Rightarrow> double list \<Rightarrow> DelaunayGraph \<Rightarrow> int
     \<Rightarrow> double list \<times> Mult_Array \<times> Mult_Array \<times> Mult_Array \<times> double list
     \<Rightarrow> error + double list \<times> Mult_Array \<times> Mult_Array \<times> Mult_Array \<times> double list" where
  "GradientStepWeights_ii S volumes SharedEdges ii = (\<lambda>(totals, integrals, dist, InvAreaDist, Ws).
     ebind (vec_put totals ii (Fin 0)) (\<lambda>totals.
       let integrals = integrals((ii, ii) \<mapsto> Fin 0);
           dist = dist((ii, ii) \<mapsto> Fin 0);
           InvAreaDist = InvAreaDist((ii, ii) \<mapsto> Fin 0)
       in
     ebind (for_loop [ii + 1 .. NRegions S - 1] (GradientStepWeights_upper S volumes SharedEdges ii)
              (totals, integrals, dist, InvAreaDist)) (\<lambda>st.
     ebind (for_loop [0 .. ii - 1] (GradientStepWeights_lower ii) st) (\<lambda>(totals, integrals, dist, InvAreaDist).
     ebind (vec_at (Covering S) ii) (\<lambda>cov.
     ebind (vec_at Ws ii) (\<lambda>w.
     ebind (if GetNVertices cov = 0 then Inr (w + weights_step (Alg_Params S) * Fin 2)
            else ebind (vec_at totals ii) (\<lambda>t. Inr (w + (- t) * weights_step (Alg_Params S)))) (\<lambda>w.
     ebind (vec_put Ws ii w) (\<lambda>Ws.
       Inr (totals, integrals, dist, InvAreaDist, Ws)))))))))"

definition GradientStepWeights :: "Partition \<Rightarrow> double list \<Rightarrow> DelaunayGraph \<Rightarrow> error + Partition" where
  "GradientStepWeights S volumes SharedEdges =
     (if NRegions S < 0 then Inl LengthError
      else
        ebind (for_loop [0 .. NRegions S - 1] (GradientStepWeights_ii S volumes SharedEdges)
                 (replicate (nat (NRegions S)) (Fin 0), Map.empty, Map.empty, Map.empty, Weights S))
          (\<lambda>(totals, integrals, dist, InvAreaDist, Ws). Inr (S\<lparr>Weights := Ws\<rparr>)))"


section \<open>Predicates used in the statements\<close>

text \<open>A value that is a real number, and a point of the plane.\<close>

fun is_finite :: "double \<Rightarrow> bool" where
  "is_finite (Fin a) = True"
| "is_finite _ = False"

fun is_nan :: "double \<Rightarrow> bool" where
  "is_nan NaN = True"
| "is_nan _ = False"

definition finite_point :: "Point \<Rightarrow> bool" where
  "finite_point p = (is_finite (xc p) \<and> is_finite (yc p))"

definition nan_free :: "Point \<Rightarrow> bool" where
  "nan_free p = (\<not> is_nan (xc p) \<and> \<not> is_nan (yc p))"

text \<open>
  The invariant of the data model: a polygon is empty, or it has at least three
  vertices, pairwise distinct, with finite coordinates, and its cached bounding box is
  not degenerate.
\<close>

definition Poly_invariant :: "Poly \<Rightarrow> bool" where
  "Poly_invariant P =
     (Vertices P = [] \<or>
      (3 \<le> length (Vertices P) \<and> distinct (Vertices P) \<and> list_all finite_point (Vertices P)
       \<and> minx P \<noteq> maxx P \<and> miny P \<noteq> maxy P))"

text \<open>
  The sizes the preprocessing of a density gives its vectors: one flag per grid point and
  one integral per grid cell.
\<close>

definition grid_ok :: "Density \<Rightarrow> bool" where
  "grid_ok D =
     (int (length (GridInRegion D)) = Nx D * Ny D
      \<and> int (length (Int' (Integral D))) = (Nx D - 1) * (Ny D - 1)
      \<and> int (length (Intx (Integral D))) = (Nx D - 1) * (Ny D - 1)
      \<and> int (length (Inty (Integral D))) = (Nx D - 1) * (Ny D - 1))"

section \<open>Concrete inputs\<close>

text \<open>
  The unit square with a uniform density sampled on the 2 x 2 grid of its corners, as the
  preprocessing leaves it when all four corners test inside: one cell, whose integral is
  1 and whose first moments are 1/2; the lower bound is the default \<^verbatim>\<open>10e-6\<close> of
  \<^verbatim>\<open>Parameters\<close>.  A triangle inside the cell, which contains no grid point, and the
  default-constructed (empty) polygon.
\<close>

definition unit_square :: Poly where
  "unit_square =
     \<lparr>Vertices = [Point (Fin 0) (Fin 0), Point (Fin 1) (Fin 0), Point (Fin 1) (Fin 1), Point (Fin 0) (Fin 1)],
      minx = Fin 0, miny = Fin 0, maxx = Fin 1, maxy = Fin 1\<rparr>"

definition uniform_density :: Density where
  "uniform_density =
     \<lparr>Region = unit_square, Nx = 2, Ny = 2, dx = Fin 1, dy = Fin 1,
      Dminx = Fin 0, Dminy = Fin 0, Dmaxx = Fin 1, Dmaxy = Fin 1,
      Volume_Lower_Bound = Fin (1 / 100000),
      Values = [Fin 1, Fin 1, Fin 1, Fin 1],
      GridInRegion = [True, True, True, True],
      Integral = \<lparr>Coefficient_a = [Fin 0], Coefficient_b = [Fin 0], Coefficient_c = [Fin 0],
                  Coefficient_d = [Fin 1], Int' = [Fin 1], Intx = [Fin (1 / 2)], Inty = [Fin (1 / 2)],
                  Unweighted_Area = Fin 1\<rparr>\<rparr>"

definition small_triangle :: Poly where
  "small_triangle =
     \<lparr>Vertices = [Point (Fin (1 / 4)) (Fin (1 / 4)), Point (Fin (3 / 4)) (Fin (1 / 4)),
                  Point (Fin (1 / 4)) (Fin (3 / 4))],
      minx = Fin (1 / 4), miny = Fin (1 / 4), maxx = Fin (3 / 4), maxy = Fin (3 / 4)\<rparr>"

definition empty_poly :: Poly where
  "empty_poly = \<lparr>Vertices = [], minx = INFINITY, miny = INFINITY, maxx = - INFINITY, maxy = - INFINITY\<rparr>"

text \<open>
  The default \<^verbatim>\<open>Parameters()\<close>, and a partition of the uniform density above into two regions
  with given desired areas and lower bound, before \<^verbatim>\<open>InitializePartition\<close>.
\<close>

definition default_params :: Parameters where
  "default_params =
     \<lparr>line_int_step = Fin (1 / 10), weights_step = Fin (1 / 10), centers_step = Fin 1,
      volume_tolerance = Fin (2 / 1000), convergence_criterion = Fin (2 / 100),
      max_iterations_volume = 200, max_iterations_centers = 500,
      Alg_Volume_Lower_Bound = Fin (1 / 100000), Robustness_Constant = Fin (1 / 10000000)\<rparr>"

definition two_regions :: "double list \<Rightarrow> double \<Rightarrow> Partition" where
  "two_regions da vlb =
     \<lparr>Centers = [], Covering = [], Weights = [],
      Alg_Params = default_params\<lparr>Alg_Volume_Lower_Bound := vlb\<rparr>,
      desired_area = da, Prior = uniform_density, NRegions = 2\<rparr>"

text \<open>
  A partition with a single region, the small triangle, whose center is at \<open>(1/4, 1/2)\<close>.
  Its volume, as \<^verbatim>\<open>CalculateVolumes\<close> reports it, is the lower bound, since the triangle
  contains no grid point.
\<close>

definition one_region :: Partition where
  "one_region =
     \<lparr>Centers = [Point (Fin (1 / 4)) (Fin (1 / 2))], Covering = [small_triangle], Weights = [Fin 0],
      Alg_Params = default_params, desired_area = [Fin 1], Prior = uniform_density, NRegions = 1\<rparr>"

section \<open>Real-valued forms of the geometric primitives\<close>

text \<open>
  On points of the plane the distance, the perpendicular distance and the longest of the
  three pairwise distances are real numbers; the proofs below compute with these forms.
\<close>

definition rdist :: "real \<Rightarrow> real \<Rightarrow> real \<Rightarrow> real \<Rightarrow> real" where
  "rdist a b c d = sqrt ((a - c) * (a - c) + (b - d) * (b - d))"

definition rperp :: "real \<Rightarrow> real \<Rightarrow> real \<Rightarrow> real \<Rightarrow> real \<Rightarrow> real \<Rightarrow> real \<Rightarrow> real" where
  "rperp rc a1 b1 a2 b2 a3 b3 =
     (if \<bar>b2 - b1\<bar> < rc then \<bar>b3 - b2\<bar>
      else if \<bar>a2 - a1\<bar> < rc then \<bar>a3 - a2\<bar>
      else \<bar>(b2 - b1) * a3 - (a2 - a1) * b3 + a2 * b1 - b2 * a1\<bar> / rdist a1 b1 a2 b2)"

definition rmaxd :: "real \<Rightarrow> real \<Rightarrow> real \<Rightarrow> real \<Rightarrow> real \<Rightarrow> real \<Rightarrow> real" where
  "rmaxd a1 b1 a2 b2 a3 b3 = max (max (rdist a1 b1 a2 b2) (rdist a2 b2 a3 b3)) (rdist a1 b1 a3 b3)"

text \<open>
  The pairs \<open>(Test_1, Test_2)\<close> of consecutive vertices that the loop of \<^verbatim>\<open>pnpoly\<close> visits: the
  edges of the polygon, the closing edge from the last vertex to the first one first.
\<close>

fun edges_from :: "Point \<Rightarrow> Point list \<Rightarrow> (Point \<times> Point) list" where
  "edges_from Test_1 [] = []"
| "edges_from Test_1 (Test_2 # rest) = (Test_1, Test_2) # edges_from Test_2 rest"

definition edges :: "Poly \<Rightarrow> (Point \<times> Point) list" where
  "edges P = edges_from (last (Vertices P)) (Vertices P)"

text \<open>The point tests as between the ends of some edge.\<close>

definition on_some_edge :: "double \<Rightarrow> Poly \<Rightarrow> Point \<Rightarrow> bool" where
  "on_some_edge RC P Test = list_ex (\<lambda>(Test_1, Test_2). AreBetween RC Test_1 Test_2 Test) (edges P)"

section \<open>The sum of the grid walk\<close>

text \<open>
  The grid walk of \<^verbatim>\<open>CalculateWeightedArea\<close> reaches the grid point \<open>(ii, jj)\<close> at the
  coordinates it gets by adding the spacing \<open>ii\<close> and \<open>jj\<close> times to the lower corner of the
  density.  The point is flagged when it lies within the cached bounding box of the
  polygon and \<^verbatim>\<open>pnpoly\<close> reports it inside.  The cell whose upper corner is \<open>(ii, jj)\<close>
  (with \<open>1 \<le> ii\<close>, \<open>1 \<le> jj\<close>) contributes its integral when its four corners are flagged.
  The integrals of these cells, in the order of the walk (row by row), are added up from
  zero.
\<close>

primrec stepped :: "double \<Rightarrow> double \<Rightarrow> nat \<Rightarrow> double" where
  "stepped a d 0 = a"
| "stepped a d (Suc n) = stepped a d n + d"

definition grid_inside :: "double \<Rightarrow> Density \<Rightarrow> Poly \<Rightarrow> int \<Rightarrow> int \<Rightarrow> bool" where
  "grid_inside RC D Test ii jj =
     (let x0 = stepped (Dminx D) (dx D) (nat ii); y0 = stepped (Dminy D) (dy D) (nat jj) in
      \<not> (x0 < minx Test \<or> x0 > maxx Test) \<and> \<not> (y0 < miny Test \<or> y0 > maxy Test)
      \<and> pnpoly RC Test (Point x0 y0) = Inr True)"

definition cell_inside :: "double \<Rightarrow> Density \<Rightarrow> Poly \<Rightarrow> int \<Rightarrow> int \<Rightarrow> bool" where
  "cell_inside RC D Test ii jj =
     (grid_inside RC D Test ii jj \<and> grid_inside RC D Test (ii - 1) jj
      \<and> grid_inside RC D Test (ii - 1) (jj - 1) \<and> grid_inside RC D Test ii (jj - 1))"

definition row_integrals :: "double \<Rightarrow> Density \<Rightarrow> Poly \<Rightarrow> int \<Rightarrow> int \<Rightarrow> double list" where
  "row_integrals RC D Test ii jj =
     map (\<lambda>j. Int' (Integral D) ! nat ((Ny D - 1) * (ii - 1) + j - 1))
       (filter (cell_inside RC D Test ii) [1 .. jj])"

definition cell_integrals :: "double \<Rightarrow> Density \<Rightarrow> Poly \<Rightarrow> double list" where
  "cell_integrals RC D Test =
     concat (map (\<lambda>ii. row_integrals RC D Test ii (Ny D - 1)) [1 .. Nx D - 1])"

definition per_cell_sum :: "double \<Rightarrow> Density \<Rightarrow> Poly \<Rightarrow> double" where
  "per_cell_sum RC D Test = foldl (+) (Fin 0) (cell_integrals RC D Test)"

text \<open>
  The flags of the walk when it is at row \<open>ii\<close> and column \<open>jj\<close>: the vector has the size of
  the grid and the entries of the points already visited are their flags.
\<close>

definition walk_flags :: "double \<Rightarrow> Density \<Rightarrow> Poly \<Rightarrow> bool list \<Rightarrow> int \<Rightarrow> int \<Rightarrow> bool" where
  "walk_flags RC D Test G ii jj =
     (int (length G) = Nx D * Ny D
      \<and> (\<forall>r c. 0 \<le> r \<and> 0 \<le> c \<and> c < Ny D \<and> (r < ii \<or> (r = ii \<and> c < jj))
            \<longrightarrow> G ! nat (r * Ny D + c) = grid_inside RC D Test r c))"


section \<open>Scaling without rounding\<close>

text \<open>
  A binary floating-point number is scaled by a power of two without rounding as long as
  neither the number nor the result leaves the range of the normal numbers.  A coordinate
  in the range below is zero or has a magnitude between \<open>2\<^sup>-\<^sup>2\<^sup>0\<^sup>0\<close> and \<open>2\<^sup>2\<^sup>0\<^sup>0\<close>; differences,
  products, square roots and quotients of such coordinates, as \<^verbatim>\<open>AreCollinear\<close> and
  \<^verbatim>\<open>AreBetween\<close> form them, are zero or stay between \<open>2\<^sup>-\<^sup>9\<^sup>0\<^sup>8\<close> and \<open>2\<^sup>9\<^sup>0\<^sup>8\<close>, well inside the
  normal range of \<^verbatim>\<open>double\<close>.
\<close>

definition in_exact_range :: "real \<Rightarrow> bool" where
  "in_exact_range x = (x = 0 \<or> (1 / 2 ^ 200 \<le> \<bar>x\<bar> \<and> \<bar>x\<bar> \<le> 2 ^ 200))"

definition power_of_two :: "bool \<Rightarrow> nat \<Rightarrow> real" where
  "power_of_two up n = (if up then 2 ^ n else 1 / 2 ^ n)"


section \<open>The weight update in closed form\<close>

text \<open>
  The quantities of the weight update rule, for regions numbered from 0.  The entry of the
  adjacency graph for the regions \<open>i \<noteq> j\<close> is the one the code reads, \<^verbatim>\<open>Graph[min][max]\<close>; the
  shared edge is defined when the \<^verbatim>\<open>x\<close> of its second end is not infinite.  The integral of
  a pair of regions is the value \<^verbatim>\<open>LineIntegral\<close> returns along their shared edge, and 0
  when no shared edge is defined.  The terms of region \<open>i\<close> are added up from zero in the
  order of the two inner loops: the regions after \<open>i\<close>, then the regions before \<open>i\<close>.
\<close>

definition ratio_diff :: "Partition \<Rightarrow> double list \<Rightarrow> int \<Rightarrow> int \<Rightarrow> double" where
  "ratio_diff S volumes i j =
     desired_area S ! nat j / volumes ! nat j - desired_area S ! nat i / volumes ! nat i"

definition edge_defined :: "DelaunayGraph \<Rightarrow> int \<Rightarrow> int \<Rightarrow> bool" where
  "edge_defined SharedEdges i j =
     (case graph_at SharedEdges (min i j) (max i j) of
        Inr e \<Rightarrow> \<not> isinf (xc (snd e))
      | Inl _ \<Rightarrow> False)"

definition edge_integral :: "Partition \<Rightarrow> DelaunayGraph \<Rightarrow> int \<Rightarrow> int \<Rightarrow> double" where
  "edge_integral S SharedEdges i j =
     (case graph_at SharedEdges (min i j) (max i j) of
        Inr e \<Rightarrow>
          if \<not> isinf (xc (snd e)) then
            (case LineIntegral (Prior S) (line_int_step (Alg_Params S)) (fst e) (snd e) of
               Inr v \<Rightarrow> v
             | Inl _ \<Rightarrow> Fin 0)
          else Fin 0
      | Inl _ \<Rightarrow> Fin 0)"

definition weight_factor :: "Partition \<Rightarrow> double list \<Rightarrow> int \<Rightarrow> int \<Rightarrow> double" where
  "weight_factor S volumes i j =
     ratio_diff S volumes i j * (Fin 1 / Distance (Centers S ! nat i) (Centers S ! nat j))"

definition weight_term :: "Partition \<Rightarrow> double list \<Rightarrow> DelaunayGraph \<Rightarrow> int \<Rightarrow> int \<Rightarrow> double" where
  "weight_term S volumes SharedEdges i j = weight_factor S volumes i j * edge_integral S SharedEdges i j"

definition other_regions :: "Partition \<Rightarrow> int \<Rightarrow> int list" where
  "other_regions S i = [i + 1 .. NRegions S - 1] @ [0 .. i - 1]"

definition weight_total :: "Partition \<Rightarrow> double list \<Rightarrow> DelaunayGraph \<Rightarrow> int \<Rightarrow> double" where
  "weight_total S volumes SharedEdges i =
     foldl (+) (Fin 0) (map (weight_term S volumes SharedEdges i) (other_regions S i))"

definition new_weight :: "Partition \<Rightarrow> double list \<Rightarrow> DelaunayGraph \<Rightarrow> int \<Rightarrow> double" where
  "new_weight S volumes SharedEdges i =
     (if GetNVertices (Covering S ! nat i) = 0
      then Weights S ! nat i + weights_step (Alg_Params S) * Fin 2
      else Weights S ! nat i - weights_step (Alg_Params S) * weight_total S volumes SharedEdges i)"

text \<open>
  The sum of the claim: the terms of the regions that share a defined edge with \<open>i\<close> only,
  in the same order.
\<close>

definition neighbour_total :: "Partition \<Rightarrow> double list \<Rightarrow> DelaunayGraph \<Rightarrow> int \<Rightarrow> double" where
  "neighbour_total S volumes SharedEdges i =
     foldl (+) (Fin 0)
       (map (weight_term S volumes SharedEdges i) (filter (edge_defined SharedEdges i) (other_regions S i)))"

text \<open>
  The input of a weight update: the vectors have the size of the partition, the graph
  has an entry for every pair \<open>i < j\<close>, and \<^verbatim>\<open>LineIntegral\<close> returns a value along every
  defined edge.
\<close>

definition weights_input_ok :: "Partition \<Rightarrow> double list \<Rightarrow> DelaunayGraph \<Rightarrow> bool" where
  "weights_input_ok S volumes SharedEdges =
     (0 \<le> NRegions S
      \<and> int (length (Centers S)) = NRegions S \<and> int (length (Covering S)) = NRegions S
      \<and> int (length (Weights S)) = NRegions S \<and> int (length (desired_area S)) = NRegions S
      \<and> int (length volumes) = NRegions S
      \<and> (\<forall>i j. 0 \<le> i \<and> i < j \<and> j < NRegions S \<longrightarrow>
            (\<exists>e. graph_at SharedEdges i j = Inr e
               \<and> (\<not> isinf (xc (snd e)) \<longrightarrow>
                    (\<exists>v. LineIntegral (Prior S) (line_int_step (Alg_Params S)) (fst e) (snd e) = Inr v)))))"

text \<open>
  The cells of the three arrays that hold their final values when the outer loop is at row
  \<open>k\<close> and the loop over \<^verbatim>\<open>jj > k\<close> is at \<open>j\<close>: those of the rows and columns before \<open>k\<close>, and
  in row and column \<open>k\<close> those before \<open>j\<close>.
\<close>

definition cells_ok ::
  "Partition \<Rightarrow> double list \<Rightarrow> DelaunayGraph \<Rightarrow> int \<Rightarrow> int
     \<Rightarrow> Mult_Array \<times> Mult_Array \<times> Mult_Array \<Rightarrow> bool" where
  "cells_ok S volumes SharedEdges k j = (\<lambda>(integrals, dst, InvAreaDist).
     \<forall>a b. 0 \<le> a \<and> a < NRegions S \<and> 0 \<le> b \<and> b < NRegions S \<and> a \<noteq> b
            \<and> (min a b < k \<or> (min a b = k \<and> max a b < j)) \<longrightarrow>
          integrals (a, b) = Some (edge_integral S SharedEdges a b)
        \<and> dst (a, b) = Some (Distance (Centers S ! nat a) (Centers S ! nat b))
        \<and> InvAreaDist (a, b) = Some (ratio_diff S volumes a b))"


text \<open>
  Three regions of the unit square with centers on the line \<open>y = 1/2\<close>, the third one with an
  empty covering.  The regions 0 and 1 share the edge from \<open>(3/8, 0)\<close> to \<open>(3/8, 1)\<close>, the
  regions 1 and 2 the edge from \<open>(5/8, 0)\<close> to \<open>(5/8, 1)\<close>, and the regions 0 and 2 share no
  edge: the entry of the graph is the pair of default-constructed points.  The steps of
  the line integral and of the weights are 1/2 and the lower bound of the volumes is
  1/1024.  The volumes are those \<^verbatim>\<open>CalculateVolumes\<close> reports: the lower bound for the small
  triangle, which contains no grid point, and for the empty covering, and 1 for the unit
  square.
\<close>

definition no_edge :: "Point \<times> Point" where
  "no_edge = (Point_default, Point_default)"

definition three_regions :: Partition where
  "three_regions =
     \<lparr>Centers = [Point (Fin (1 / 4)) (Fin (1 / 2)), Point (Fin (1 / 2)) (Fin (1 / 2)),
                 Point (Fin (3 / 4)) (Fin (1 / 2))],
      Covering = [small_triangle, unit_square, empty_poly],
      Weights = [Fin 0, Fin 0, Fin 0],
      Alg_Params = default_params\<lparr>line_int_step := Fin (1 / 2), weights_step := Fin (1 / 2),
                                  Alg_Volume_Lower_Bound := Fin (1 / 1024)\<rparr>,
      desired_area = [Fin (1 / 2), Fin (1 / 4), Fin (1 / 4)],
      Prior = SetVolumeLowerBound uniform_density (Fin (1 / 1024)), NRegions = 3\<rparr>"

definition three_volumes :: "double list" where
  "three_volumes = [Fin (1 / 1024), Fin 1, Fin (1 / 1024)]"

definition three_graph :: DelaunayGraph where
  "three_graph =
     \<lparr>Graph =
        [[no_edge, (Point (Fin (3 / 8)) (Fin 0), Point (Fin (3 / 8)) (Fin 1)), no_edge],
         [(Point (Fin (3 / 8)) (Fin 0), Point (Fin (3 / 8)) (Fin 1)), no_edge,
          (Point (Fin (5 / 8)) (Fin 0), Point (Fin (5 / 8)) (Fin 1))],
         [no_edge, (Point (Fin (5 / 8)) (Fin 0), Point (Fin (5 / 8)) (Fin 1)), no_edge]],
      Graph_NRegions = 3\<rparr>"

text \<open>
  Two regions with the same center, the second one with an empty covering and therefore
  with the lower bound as its volume, and no shared edge.
\<close>

definition twin_regions :: Partition where
  "twin_regions =
     \<lparr>Centers = [Point (Fin (1 / 2)) (Fin (1 / 2)), Point (Fin (1 / 2)) (Fin (1 / 2))],
      Covering = [unit_square, empty_poly],
      Weights = [Fin 0, Fin 0],
      Alg_Params = default_params,
      desired_area = [Fin (1 / 2), Fin (1 / 2)], Prior = uniform_density, NRegions = 2\<rparr>"

definition twin_volumes :: "double list" where
  "twin_volumes = [Fin 1, Fin (1 / 100000)]"

definition twin_graph :: DelaunayGraph where
  "twin_graph = \<lparr>Graph = [[no_edge, no_edge], [no_edge, no_edge]], Graph_NRegions = 2\<rparr>"


section \<open>Arithmetic on finite values\<close>

lemma minus_Fin [simp]: "Fin a - Fin b = Fin (a - b)"
  by (simp add: minus_double_def)

lemma deq_Fin [simp]: "deq (Fin a) (Fin b) = (a = b)"
  by simp

lemma Distance_Fin:
  "Distance (Point (Fin a) (Fin b)) (Point (Fin c) (Fin d)) = Fin (sqrt ((a - c) * (a - c) + (b - d) * (b - d)))"
  by (simp add: Distance_def not_less)

lemma Norm_Fin: "Norm (Point (Fin a) (Fin b)) = Fin (sqrt (a * a + b * b))"
  by (simp add: Norm_def not_less)


lemma ebind_Inr [simp]: "ebind (Inr a) f = f a"
  by (simp add: ebind_def)

lemma ebind_Inl [simp]: "ebind (Inl e) f = Inl e"
  by (simp add: ebind_def)

lemma ebind_eq_Inr: "ebind m f = Inr b \<longleftrightarrow> (\<exists>a. m = Inr a \<and> f a = Inr b)"
  by (cases m) simp_all

lemma ebind_eq_Inl: "ebind m f = Inl e \<longleftrightarrow> m = Inl e \<or> (\<exists>a. m = Inr a \<and> f a = Inl e)"
  by (cases m) simp_all

text \<open>A counted loop that keeps an invariant indexed by its counter runs to its end.\<close>

lemma for_loop_range:
  assumes "lo \<le> hi + 1" and "I lo s"
    and "\<And>i s. lo \<le> i \<Longrightarrow> i \<le> hi \<Longrightarrow> I i s \<Longrightarrow> \<exists>s'. body i s = Inr s' \<and> I (i + 1) s'"
  shows "\<exists>s'. for_loop [lo .. hi] body s = Inr s' \<and> I (hi + 1) s'"
  using assms
proof (induction "nat (hi + 1 - lo)" arbitrary: lo s)
  case 0
  then have "lo = hi + 1" by simp
  with 0 show ?case by simp
next
  case (Suc k)
  then have le: "lo \<le> hi" by simp
  then have u: "[lo .. hi] = lo # [lo + 1 .. hi]" by (simp add: upto_rec1)
  from Suc.prems(3) [of lo s] Suc.prems(2) le obtain s1 where s1: "body lo s = Inr s1" "I (lo + 1) s1"
    by auto
  have "\<exists>s'. for_loop [lo + 1 .. hi] body s1 = Inr s' \<and> I (hi + 1) s'"
  proof (rule Suc.hyps(1))
    show "k = nat (hi + 1 - (lo + 1))" using Suc.hyps(2) by simp
    show "lo + 1 \<le> hi + 1" using le by simp
    show "I (lo + 1) s1" by (rule s1(2))
    show "\<And>i s. lo + 1 \<le> i \<Longrightarrow> i \<le> hi \<Longrightarrow> I i s \<Longrightarrow> \<exists>s'. body i s = Inr s' \<and> I (i + 1) s'"
      using Suc.prems(3) by simp
  qed
  with s1(1) show ?case by (simp add: u)
qed

section \<open>FindPerpDirection\<close>

lemma Distance_self:
  assumes "finite_point p"
  shows "Distance p p = Fin 0"
proof -
  obtain u v where p: "p = Point u v" by (cases p)
  with assms obtain a b where "u = Fin a" "v = Fin b"
    by (cases u; cases v) (simp_all add: finite_point_def)
  with p show ?thesis by (simp add: Distance_def)
qed




section \<open>Poly: initialization and the invariant\<close>

lemma IsEqual_iff: "IsEqual p q \<longleftrightarrow> deq (xc p) (xc q) \<and> deq (yc p) (yc q)"
  by (simp add: IsEqual_def)

lemma deq_refl: "\<not> is_nan a \<Longrightarrow> deq a a"
  by (cases a) simp_all

lemma deq_eq: "deq a b \<Longrightarrow> a = b"
  by (cases a; cases b) simp_all

lemma IsEqual_eq: "IsEqual p q \<Longrightarrow> p = q"
  by (cases p; cases q) (auto simp: IsEqual_iff dest: deq_eq)

lemma IsEqual_refl: "nan_free p \<Longrightarrow> IsEqual p p"
  by (simp add: IsEqual_iff nan_free_def deq_refl)

lemma jj_Inr: "InitializePoly_jj v ws = Inr u \<longleftrightarrow> list_all (\<lambda>w. \<not> IsEqual v w) ws"
  by (induction ws) auto

lemma jj_Inl: "InitializePoly_jj v ws = Inl e \<Longrightarrow> e = DuplicateVertices \<and> (\<exists>k < length ws. IsEqual v (ws ! k))"
proof (induction ws)
  case Nil
  then show ?case by simp
next
  case (Cons w ws)
  show ?case
  proof (cases "IsEqual v w")
    case True
    with Cons.prems show ?thesis by auto
  next
    case False
    with Cons have "e = DuplicateVertices \<and> (\<exists>k < length ws. IsEqual v (ws ! k))" by simp
    then obtain k where "e = DuplicateVertices" "k < length ws" "IsEqual v (ws ! k)" by blast
    then have "Suc k < length (w # ws) \<and> IsEqual v ((w # ws) ! Suc k)" by simp
    with \<open>e = DuplicateVertices\<close> show ?thesis by blast
  qed
qed

lemma ii_Inr:
  "InitializePoly_ii vs e = Inr e' \<Longrightarrow>
     list_all (\<lambda>v. \<not> isinf (xc v) \<and> \<not> isinf (yc v)) vs
     \<and> (\<forall>i j. i < j \<and> j < length vs \<longrightarrow> \<not> IsEqual (vs ! i) (vs ! j))"
proof (induction vs arbitrary: e)
  case Nil
  then show ?case by simp
next
  case (Cons v vs)
  obtain mnx mny mxx mxy where e: "e = (mnx, mny, mxx, mxy)" by (cases e) auto
  from Cons.prems have fin: "\<not> isinf (xc v)" "\<not> isinf (yc v)"
    by (auto simp: e split: if_splits)
  from Cons.prems fin obtain e2 where jj: "InitializePoly_jj v vs = Inr ()" and rec: "InitializePoly_ii vs e2 = Inr e'"
    by (auto simp: e Let_def ebind_eq_Inr)
  from Cons.IH [OF rec] have IH: "list_all (\<lambda>v. \<not> isinf (xc v) \<and> \<not> isinf (yc v)) vs"
    "\<And>i j. i < j \<Longrightarrow> j < length vs \<Longrightarrow> \<not> IsEqual (vs ! i) (vs ! j)" by auto
  from jj have hd: "\<And>k. k < length vs \<Longrightarrow> \<not> IsEqual v (vs ! k)"
    by (simp add: jj_Inr list_all_length)
  have "\<not> IsEqual ((v # vs) ! i) ((v # vs) ! j)" if "i < j" "j < length (v # vs)" for i j
  proof (cases i)
    case 0
    with that obtain j' where "j = Suc j'" "j' < length vs" by (cases j) auto
    with 0 hd show ?thesis by simp
  next
    case (Suc i')
    with that obtain j' where "j = Suc j'" "j' < length vs" "i' < j'" by (cases j) auto
    with Suc IH(2) show ?thesis by simp
  qed
  with fin IH(1) show ?case by simp
qed

lemma ii_Inl_dup:
  "InitializePoly_ii vs e = Inl DuplicateVertices \<Longrightarrow>
     \<exists>i j. i < j \<and> j < length vs \<and> IsEqual (vs ! i) (vs ! j)"
proof (induction vs arbitrary: e)
  case Nil
  then show ?case by simp
next
  case (Cons v vs)
  obtain mnx mny mxx mxy where e: "e = (mnx, mny, mxx, mxy)" by (cases e) auto
  from Cons.prems have fin: "\<not> isinf (xc v)" "\<not> isinf (yc v)"
    by (auto simp: e split: if_splits)
  from Cons.prems fin have
    "InitializePoly_jj v vs = Inl DuplicateVertices \<or> (\<exists>e2. InitializePoly_ii vs e2 = Inl DuplicateVertices)"
    by (auto simp: e Let_def ebind_eq_Inl)
  then show ?case
  proof
    assume "InitializePoly_jj v vs = Inl DuplicateVertices"
    then obtain k where "k < length vs" "IsEqual v (vs ! k)" using jj_Inl by blast
    then have "0 < Suc k \<and> Suc k < length (v # vs) \<and> IsEqual ((v # vs) ! 0) ((v # vs) ! Suc k)" by simp
    then show ?thesis by blast
  next
    assume "\<exists>e2. InitializePoly_ii vs e2 = Inl DuplicateVertices"
    then obtain i j where "i < j" "j < length vs" "IsEqual (vs ! i) (vs ! j)" using Cons.IH by blast
    then have "Suc i < Suc j \<and> Suc j < length (v # vs) \<and> IsEqual ((v # vs) ! Suc i) ((v # vs) ! Suc j)" by simp
    then show ?thesis by blast
  qed
qed

lemma dle_refl: "\<not> is_nan a \<Longrightarrow> a \<le> (a::double)"
  by (cases a) simp_all

lemma dle_trans: "a \<le> b \<Longrightarrow> b \<le> c \<Longrightarrow> a \<le> (c::double)"
  by (cases a; cases b; cases c) simp_all

lemma dless_imp_le: "a < b \<Longrightarrow> a \<le> (b::double)"
  by (cases a; cases b) simp_all

lemma dnot_less_le: "\<not> is_nan a \<Longrightarrow> \<not> is_nan b \<Longrightarrow> \<not> a < b \<Longrightarrow> b \<le> (a::double)"
  by (cases a; cases b) simp_all

lemma dless_not_nan: "a < (b::double) \<Longrightarrow> \<not> is_nan a \<and> \<not> is_nan b"
  by (cases a; cases b) simp_all

lemma not_deq_neq: "\<not> is_nan a \<Longrightarrow> \<not> is_nan b \<Longrightarrow> \<not> deq a b \<Longrightarrow> a \<noteq> b"
  by (cases a; cases b) simp_all

lemma finite_not_nan: "is_finite a \<Longrightarrow> \<not> is_nan a"
  by (cases a) simp_all

lemma finite_iff: "is_finite a \<longleftrightarrow> \<not> is_nan a \<and> \<not> isinf a"
  by (cases a) simp_all

lemma ii_not_nan:
  "InitializePoly_ii vs (mnx, mny, mxx, mxy) = Inr (a, b, c, d) \<Longrightarrow>
   \<not> is_nan mnx \<Longrightarrow> \<not> is_nan mny \<Longrightarrow> \<not> is_nan mxx \<Longrightarrow> \<not> is_nan mxy \<Longrightarrow>
   \<not> is_nan a \<and> \<not> is_nan b \<and> \<not> is_nan c \<and> \<not> is_nan d"
proof (induction vs arbitrary: mnx mny mxx mxy)
  case Nil
  then show ?case by simp
next
  case (Cons v vs)
  let ?mnx = "if xc v < mnx then xc v else mnx" and ?mxx = "if xc v > mxx then xc v else mxx"
  let ?mny = "if yc v < mny then yc v else mny" and ?mxy = "if yc v > mxy then yc v else mxy"
  from Cons.prems(1) have rec: "InitializePoly_ii vs (?mnx, ?mny, ?mxx, ?mxy) = Inr (a, b, c, d)"
    by (auto simp: Let_def ebind_eq_Inr split: if_splits)
  have "\<not> is_nan ?mnx" "\<not> is_nan ?mny" "\<not> is_nan ?mxx" "\<not> is_nan ?mxy"
    using Cons.prems(2-5) by (auto dest: dless_not_nan)
  then show ?case by (rule Cons.IH [OF rec])
qed

lemma ii_extrema:
  "InitializePoly_ii vs (mnx, mny, mxx, mxy) = Inr (a, b, c, d) \<Longrightarrow>
   list_all finite_point vs \<Longrightarrow>
   \<not> is_nan mnx \<Longrightarrow> \<not> is_nan mny \<Longrightarrow> \<not> is_nan mxx \<Longrightarrow> \<not> is_nan mxy \<Longrightarrow>
   (a \<le> mnx \<and> b \<le> mny \<and> mxx \<le> c \<and> mxy \<le> d)
   \<and> (\<forall>v \<in> set vs. a \<le> xc v \<and> xc v \<le> c \<and> b \<le> yc v \<and> yc v \<le> d)"
proof (induction vs arbitrary: mnx mny mxx mxy)
  case Nil
  then show ?case by (simp add: dle_refl)
next
  case (Cons v vs)
  let ?mnx = "if xc v < mnx then xc v else mnx" and ?mxx = "if xc v > mxx then xc v else mxx"
  let ?mny = "if yc v < mny then yc v else mny" and ?mxy = "if yc v > mxy then yc v else mxy"
  from Cons.prems(1) have rec: "InitializePoly_ii vs (?mnx, ?mny, ?mxx, ?mxy) = Inr (a, b, c, d)"
    by (auto simp: Let_def ebind_eq_Inr split: if_splits)
  from Cons.prems(2) have fvs: "list_all finite_point vs" and "finite_point v"
    by simp_all
  then have fv: "\<not> is_nan (xc v)" "\<not> is_nan (yc v)"
    by (simp_all add: finite_point_def finite_not_nan)
  have nn: "\<not> is_nan ?mnx" "\<not> is_nan ?mny" "\<not> is_nan ?mxx" "\<not> is_nan ?mxy"
    using Cons.prems(3-6) fv by auto
  from Cons.IH [OF rec fvs nn] have
    IH: "a \<le> ?mnx" "b \<le> ?mny" "?mxx \<le> c" "?mxy \<le> d"
      "\<And>w. w \<in> set vs \<Longrightarrow> a \<le> xc w \<and> xc w \<le> c \<and> b \<le> yc w \<and> yc w \<le> d"
    by auto
  have s: "?mnx \<le> mnx" "?mnx \<le> xc v" "?mny \<le> mny" "?mny \<le> yc v"
          "mxx \<le> ?mxx" "xc v \<le> ?mxx" "mxy \<le> ?mxy" "yc v \<le> ?mxy"
    using Cons.prems(3-6) fv by (auto simp: dle_refl dless_imp_le dnot_less_le)
  have "a \<le> mnx" "b \<le> mny" "mxx \<le> c" "mxy \<le> d"
       "a \<le> xc v" "xc v \<le> c" "b \<le> yc v" "yc v \<le> d"
    using IH(1-4) s by (blast intro: dle_trans)+
  with IH(5) show ?case by auto
qed

lemma InitializePoly_Inr:
  assumes "InitializePoly P = Inr P'"
  shows "Vertices P' = Vertices P"
    and "Vertices P = [] \<or> 3 \<le> length (Vertices P)"
    and "list_all (\<lambda>v. \<not> isinf (xc v) \<and> \<not> isinf (yc v)) (Vertices P)"
    and "\<forall>i j. i < j \<and> j < length (Vertices P) \<longrightarrow> \<not> IsEqual (Vertices P ! i) (Vertices P ! j)"
    and "Vertices P \<noteq> [] \<Longrightarrow> minx P' \<noteq> maxx P' \<and> miny P' \<noteq> maxy P'"
    and "Vertices P \<noteq> [] \<Longrightarrow> list_all finite_point (Vertices P) \<Longrightarrow>
           \<forall>v \<in> set (Vertices P). minx P' \<le> xc v \<and> xc v \<le> maxx P' \<and> miny P' \<le> yc v \<and> yc v \<le> maxy P'"
proof -
  show "Vertices P' = Vertices P"
    using assms by (auto simp: InitializePoly_def Let_def NPoly_def ebind_eq_Inr split: if_splits)
  show "Vertices P = [] \<or> 3 \<le> length (Vertices P)"
    using assms by (auto simp: InitializePoly_def Let_def NPoly_def split: if_splits)
  show "list_all (\<lambda>v. \<not> isinf (xc v) \<and> \<not> isinf (yc v)) (Vertices P)"
    using assms by (cases "Vertices P = []")
      (auto simp: InitializePoly_def Let_def NPoly_def ebind_eq_Inr split: if_splits dest: ii_Inr)
  show "\<forall>i j. i < j \<and> j < length (Vertices P) \<longrightarrow> \<not> IsEqual (Vertices P ! i) (Vertices P ! j)"
    using assms by (cases "Vertices P = []")
      (auto simp: InitializePoly_def Let_def NPoly_def ebind_eq_Inr split: if_splits dest: ii_Inr)
  {
    assume ne: "Vertices P \<noteq> []"
    with assms obtain a b c d where
      ii: "InitializePoly_ii (Vertices P) (PInf, PInf, MInf, MInf) = Inr (a, b, c, d)"
      and nd: "\<not> deq a c" "\<not> deq b d"
      and P': "minx P' = a" "miny P' = b" "maxx P' = c" "maxy P' = d"
      by (auto simp: InitializePoly_def Let_def NPoly_def INFINITY_def ebind_eq_Inr split: if_splits)
    from ii_not_nan [OF ii] have nn: "\<not> is_nan a" "\<not> is_nan b" "\<not> is_nan c" "\<not> is_nan d" by simp_all
    show "minx P' \<noteq> maxx P' \<and> miny P' \<noteq> maxy P'"
      using nd nn P' by (simp add: not_deq_neq)
    assume "list_all finite_point (Vertices P)"
    from ii_extrema [OF ii this] P'
    show "\<forall>v \<in> set (Vertices P). minx P' \<le> xc v \<and> xc v \<le> maxx P' \<and> miny P' \<le> yc v \<and> yc v \<le> maxy P'"
      by simp
  }
qed

lemma nan_free_distinct:
  assumes "list_all nan_free vs"
    and "\<forall>i j. i < j \<and> j < length vs \<longrightarrow> \<not> IsEqual (vs ! i) (vs ! j)"
  shows "distinct vs"
proof -
  have "vs ! i \<noteq> vs ! j" if "i < j" "j < length vs" for i j
  proof
    assume eq: "vs ! i = vs ! j"
    from that assms(1) have "nan_free (vs ! j)" by (simp add: list_all_length)
    then have "IsEqual (vs ! i) (vs ! j)" using eq by (simp add: IsEqual_refl)
    with that assms(2) show False by blast
  qed
  then show ?thesis
    by (metis distinct_conv_nth nat_neq_iff)
qed

lemma nan_free_finite:
  "list_all nan_free vs \<Longrightarrow> list_all (\<lambda>v. \<not> isinf (xc v) \<and> \<not> isinf (yc v)) vs \<Longrightarrow> list_all finite_point vs"
  by (induction vs) (auto simp: nan_free_def finite_point_def finite_iff)

lemma InitializePoly_invariant:
  assumes "InitializePoly P = Inr P'" and "list_all nan_free (Vertices P)"
  shows "Poly_invariant P'"
proof (cases "Vertices P = []")
  case True
  with InitializePoly_Inr(1) [OF assms(1)] show ?thesis by (simp add: Poly_invariant_def)
next
  case False
  note I = InitializePoly_Inr [OF assms(1)]
  from I(2) False have "3 \<le> length (Vertices P)" by simp
  moreover have "distinct (Vertices P)" using assms(2) I(4) by (rule nan_free_distinct)
  moreover have "list_all finite_point (Vertices P)" using assms(2) I(3) by (rule nan_free_finite)
  moreover have "minx P' \<noteq> maxx P' \<and> miny P' \<noteq> maxy P'" using I(5) False by simp
  ultimately show ?thesis by (simp add: Poly_invariant_def I(1))
qed

text \<open>
  C5 (amended).  After the constructor \<^verbatim>\<open>Poly(Vertices)\<close> or \<^verbatim>\<open>SetVertices\<close> with extrema
  recomputation returns without an error, on vertices none of whose coordinates is \<open>NaN\<close>,
  the polygon holds exactly the given vertices and satisfies the invariant of the data
  model.  \<^verbatim>\<open>SetVertices\<close> without extrema recomputation only guarantees that the polygon is
  empty or has at least three vertices.
\<close>

theorem Poly_invariant_established:
  "(list_all nan_free vs \<and> Poly_ctor vs = Inr P \<longrightarrow> Poly_invariant P \<and> Vertices P = vs)
   \<and> (list_all nan_free vs \<and> SetVertices P0 vs True = Inr P \<longrightarrow> Poly_invariant P \<and> Vertices P = vs)
   \<and> (SetVertices P0 vs False = Inr P \<longrightarrow> Vertices P = vs \<and> (vs = [] \<or> 3 \<le> length vs))"
proof (intro conjI impI)
  assume a: "list_all nan_free vs \<and> Poly_ctor vs = Inr P"
  let ?Q = "\<lparr>Vertices = vs, minx = INFINITY, miny = INFINITY, maxx = - INFINITY, maxy = - INFINITY\<rparr>"
  from a have i: "InitializePoly ?Q = Inr P" by (simp add: Poly_ctor_def)
  from InitializePoly_invariant [OF i] a show "Poly_invariant P" by simp
  from InitializePoly_Inr(1) [OF i] show "Vertices P = vs" by simp
next
  assume a: "list_all nan_free vs \<and> SetVertices P0 vs True = Inr P"
  then have i: "InitializePoly (P0\<lparr>Vertices := vs\<rparr>) = Inr P" by (simp add: SetVertices_def)
  from InitializePoly_invariant [OF i] a show "Poly_invariant P" by simp
  from InitializePoly_Inr(1) [OF i] show "Vertices P = vs" by simp
next
  assume a: "SetVertices P0 vs False = Inr P"
  then show "Vertices P = vs"
    by (auto simp: SetVertices_def Let_def split: if_splits)
  from a show "vs = [] \<or> 3 \<le> length vs"
    by (auto simp: SetVertices_def Let_def NPoly_def split: if_splits)
qed

lemma triangle_ctor:
  "Poly_ctor [Point (Fin 0) (Fin 0), Point (Fin 1) (Fin 0), Point (Fin 0) (Fin 1)]
   = Inr \<lparr>Vertices = [Point (Fin 0) (Fin 0), Point (Fin 1) (Fin 0), Point (Fin 0) (Fin 1)],
          minx = Fin 0, miny = Fin 0, maxx = Fin 1, maxy = Fin 1\<rparr>"
  by (simp add: Poly_ctor_def InitializePoly_def INFINITY_def NPoly_def Let_def IsEqual_def)

theorem Poly_invariant_established_witness:
  "Poly_invariant \<lparr>Vertices = [Point (Fin 0) (Fin 0), Point (Fin 1) (Fin 0), Point (Fin 0) (Fin 1)],
          minx = Fin 0, miny = Fin 0, maxx = Fin 1, maxy = Fin 1\<rparr>
   \<and> SetVertices \<lparr>Vertices = [], minx = PInf, miny = PInf, maxx = MInf, maxy = MInf\<rparr>
        [Point (Fin 0) (Fin 0), Point (Fin 1) (Fin 0), Point (Fin 0) (Fin 1)] False
      = Inr \<lparr>Vertices = [Point (Fin 0) (Fin 0), Point (Fin 1) (Fin 0), Point (Fin 0) (Fin 1)],
          minx = PInf, miny = PInf, maxx = MInf, maxy = MInf\<rparr>"
  using Poly_invariant_established
    [of "[Point (Fin 0) (Fin 0), Point (Fin 1) (Fin 0), Point (Fin 0) (Fin 1)]"
        "\<lparr>Vertices = [Point (Fin 0) (Fin 0), Point (Fin 1) (Fin 0), Point (Fin 0) (Fin 1)],
          minx = Fin 0, miny = Fin 0, maxx = Fin 1, maxy = Fin 1\<rparr>"]
    triangle_ctor
  by (simp add: nan_free_def SetVertices_def NPoly_def Let_def)

text \<open>
  C5 as stated fails: \<^verbatim>\<open>SetVertices(Vertices, false)\<close> accepts three identical vertices, and
  the constructor accepts a vertex with \<open>NaN\<close> coordinates (\<^verbatim>\<open>isinf\<close> is false on \<open>NaN\<close>).
\<close>

theorem Poly_invariant_counterexample:
  "SetVertices \<lparr>Vertices = [], minx = PInf, miny = PInf, maxx = MInf, maxy = MInf\<rparr>
       [Point (Fin 0) (Fin 0), Point (Fin 0) (Fin 0), Point (Fin 0) (Fin 0)] False
     = Inr \<lparr>Vertices = [Point (Fin 0) (Fin 0), Point (Fin 0) (Fin 0), Point (Fin 0) (Fin 0)],
            minx = PInf, miny = PInf, maxx = MInf, maxy = MInf\<rparr>
   \<and> \<not> Poly_invariant \<lparr>Vertices = [Point (Fin 0) (Fin 0), Point (Fin 0) (Fin 0), Point (Fin 0) (Fin 0)],
            minx = PInf, miny = PInf, maxx = MInf, maxy = MInf\<rparr>
   \<and> Poly_ctor [Point NaN NaN, Point (Fin 0) (Fin 0), Point (Fin 1) (Fin 1)]
     = Inr \<lparr>Vertices = [Point NaN NaN, Point (Fin 0) (Fin 0), Point (Fin 1) (Fin 1)],
            minx = Fin 0, miny = Fin 0, maxx = Fin 1, maxy = Fin 1\<rparr>
   \<and> \<not> Poly_invariant \<lparr>Vertices = [Point NaN NaN, Point (Fin 0) (Fin 0), Point (Fin 1) (Fin 1)],
            minx = Fin 0, miny = Fin 0, maxx = Fin 1, maxy = Fin 1\<rparr>"
  by (simp add: SetVertices_def NPoly_def Let_def Poly_invariant_def Poly_ctor_def InitializePoly_def
        INFINITY_def IsEqual_def finite_point_def)

text \<open>
  C9.  \<^verbatim>\<open>IsEqual\<close> is the exact comparison \<^verbatim>\<open>==\<close> of both coordinates and does not read the
  robustness constant.  So \<^verbatim>\<open>InitializePoly\<close> raises the duplicate-vertices error only when
  two vertices compare exactly equal, and for every robustness constant \<open>rc > 0\<close> the
  constructor accepts a polygon with two distinct vertices at distance \<open>rc / 2 < rc\<close>.
\<close>

theorem IsEqual_exact:
  "(IsEqual Test1 Test2 \<longleftrightarrow> deq (xc Test1) (xc Test2) \<and> deq (yc Test1) (yc Test2))
   \<and> (InitializePoly P = Inl DuplicateVertices \<longrightarrow>
        (\<exists>i j. i < j \<and> j < length (Vertices P)
           \<and> deq (xc (Vertices P ! i)) (xc (Vertices P ! j))
           \<and> deq (yc (Vertices P ! i)) (yc (Vertices P ! j))))
   \<and> (0 < rc \<longrightarrow>
        Distance (Point (Fin 0) (Fin 0)) (Point (Fin (rc / 2)) (Fin 0)) < Fin rc
        \<and> Point (Fin 0) (Fin 0) \<noteq> Point (Fin (rc / 2)) (Fin 0)
        \<and> Poly_ctor [Point (Fin 0) (Fin 0), Point (Fin (rc / 2)) (Fin 0), Point (Fin 0) (Fin 1)]
          = Inr \<lparr>Vertices = [Point (Fin 0) (Fin 0), Point (Fin (rc / 2)) (Fin 0), Point (Fin 0) (Fin 1)],
                 minx = Fin 0, miny = Fin 0, maxx = Fin (rc / 2), maxy = Fin 1\<rparr>)"
proof (intro conjI impI)
  show "IsEqual Test1 Test2 \<longleftrightarrow> deq (xc Test1) (xc Test2) \<and> deq (yc Test1) (yc Test2)"
    by (rule IsEqual_iff)
next
  assume a: "InitializePoly P = Inl DuplicateVertices"
  then have "Vertices P \<noteq> []" by (auto simp: InitializePoly_def Let_def)
  with a have "\<exists>e. InitializePoly_ii (Vertices P) e = Inl DuplicateVertices"
    by (auto simp: InitializePoly_def Let_def ebind_eq_Inl split: if_splits prod.splits)
  then obtain i j where "i < j" "j < length (Vertices P)" "IsEqual (Vertices P ! i) (Vertices P ! j)"
    using ii_Inl_dup by blast
  then show "\<exists>i j. i < j \<and> j < length (Vertices P)
           \<and> deq (xc (Vertices P ! i)) (xc (Vertices P ! j))
           \<and> deq (yc (Vertices P ! i)) (yc (Vertices P ! j))"
    unfolding IsEqual_iff by blast
next
  assume rc: "0 < rc"
  have "sqrt ((0 - rc / 2) * (0 - rc / 2) + (0 - 0) * (0 - 0)) = \<bar>rc / 2\<bar>"
    by (simp only: diff_self mult_zero_left add_0_right diff_0 minus_mult_minus real_sqrt_abs2)
  then have "Distance (Point (Fin 0) (Fin 0)) (Point (Fin (rc / 2)) (Fin 0)) = Fin \<bar>rc / 2\<bar>"
    by (simp only: Distance_Fin)
  then show "Distance (Point (Fin 0) (Fin 0)) (Point (Fin (rc / 2)) (Fin 0)) < Fin rc"
    using rc by simp
  show "Point (Fin 0) (Fin 0) \<noteq> Point (Fin (rc / 2)) (Fin 0)"
    using rc by simp
  show "Poly_ctor [Point (Fin 0) (Fin 0), Point (Fin (rc / 2)) (Fin 0), Point (Fin 0) (Fin 1)]
          = Inr \<lparr>Vertices = [Point (Fin 0) (Fin 0), Point (Fin (rc / 2)) (Fin 0), Point (Fin 0) (Fin 1)],
                 minx = Fin 0, miny = Fin 0, maxx = Fin (rc / 2), maxy = Fin 1\<rparr>"
    using rc by (simp add: Poly_ctor_def InitializePoly_def INFINITY_def NPoly_def Let_def IsEqual_def)
qed

theorem IsEqual_exact_witness:
  "InitializePoly \<lparr>Vertices = [Point (Fin 0) (Fin 0), Point (Fin 1) (Fin 0), Point (Fin 0) (Fin 0)],
       minx = PInf, miny = PInf, maxx = MInf, maxy = MInf\<rparr> = Inl DuplicateVertices
   \<and> IsEqual (Point (Fin 0) (Fin 0)) (Point (Fin 0) (Fin 0))
   \<and> (0::real) < 1 / 10000000
   \<and> Distance (Point (Fin 0) (Fin 0)) (Point (Fin (1 / 10000000 / 2)) (Fin 0)) < Fin (1 / 10000000)
   \<and> Poly_ctor [Point (Fin 0) (Fin 0), Point (Fin (1 / 10000000 / 2)) (Fin 0), Point (Fin 0) (Fin 1)]
     = Inr \<lparr>Vertices = [Point (Fin 0) (Fin 0), Point (Fin (1 / 10000000 / 2)) (Fin 0), Point (Fin 0) (Fin 1)],
            minx = Fin 0, miny = Fin 0, maxx = Fin (1 / 10000000 / 2), maxy = Fin 1\<rparr>"
proof -
  have d: "InitializePoly \<lparr>Vertices = [Point (Fin 0) (Fin 0), Point (Fin 1) (Fin 0), Point (Fin 0) (Fin 0)],
       minx = PInf, miny = PInf, maxx = MInf, maxy = MInf\<rparr> = Inl DuplicateVertices"
    by (simp add: InitializePoly_def INFINITY_def NPoly_def Let_def IsEqual_def)
  have r: "(0::real) < 1 / 10000000" by simp
  note T = IsEqual_exact [of "Point (Fin 0) (Fin 0)" "Point (Fin 0) (Fin 0)"
      "\<lparr>Vertices = [Point (Fin 0) (Fin 0), Point (Fin 1) (Fin 0), Point (Fin 0) (Fin 0)],
       minx = PInf, miny = PInf, maxx = MInf, maxy = MInf\<rparr>" "1 / 10000000"]
  from T have e: "IsEqual (Point (Fin 0) (Fin 0)) (Point (Fin 0) (Fin 0))" by simp
  from T r have p: "Distance (Point (Fin 0) (Fin 0)) (Point (Fin (1 / 10000000 / 2)) (Fin 0)) < Fin (1 / 10000000)
   \<and> Poly_ctor [Point (Fin 0) (Fin 0), Point (Fin (1 / 10000000 / 2)) (Fin 0), Point (Fin 0) (Fin 1)]
     = Inr \<lparr>Vertices = [Point (Fin 0) (Fin 0), Point (Fin (1 / 10000000 / 2)) (Fin 0), Point (Fin 0) (Fin 1)],
            minx = Fin 0, miny = Fin 0, maxx = Fin (1 / 10000000 / 2), maxy = Fin 1\<rparr>"
    by blast
  from d e r p show ?thesis by blast
qed

section \<open>Point in polygon: the edge test\<close>

lemma loop_between:
  "list_ex (\<lambda>(Test_1, Test_2). AreBetween RC Test_1 Test_2 Test) (edges_from T1 vs)
     \<Longrightarrow> pnpoly_loop RC Test T1 vs val = True"
  by (induction vs arbitrary: T1 val) (auto simp: Let_def)

lemma pnpoly_between:
  assumes "(Test_1, Test_2) \<in> set (edges P)" "AreBetween RC Test_1 Test_2 Test"
  shows "pnpoly RC P Test = Inr True"
proof -
  from assms have e: "list_ex (\<lambda>(Test_1, Test_2). AreBetween RC Test_1 Test_2 Test)
      (edges_from (last (Vertices P)) (Vertices P))"
    by (auto simp: list_ex_iff edges_def)
  then have "Vertices P \<noteq> []" by auto
  with loop_between [OF e] show ?thesis by (simp add: pnpoly_def)
qed

section \<open>Density: weighted area and centroid\<close>

lemma for_loop_total:
  assumes "\<And>i s. i \<in> set is \<Longrightarrow> I s \<Longrightarrow> \<exists>s'. body i s = Inr s' \<and> I s'"
    and "I s"
  shows "\<exists>s'. for_loop is body s = Inr s' \<and> I s'"
  using assms
proof (induction "is" arbitrary: s)
  case Nil
  then show ?case by simp
next
  case (Cons i "is")
  from Cons.prems(1) [of i s] Cons.prems(2) obtain s1 where s1: "body i s = Inr s1" "I s1" by auto
  have "\<exists>s'. for_loop is body s1 = Inr s' \<and> I s'"
    by (rule Cons.IH) (use Cons.prems(1) s1(2) in auto)
  with s1(1) show ?case by simp
qed

lemma idx_bound:
  fixes ii jj N M :: int
  assumes "0 \<le> ii" "ii \<le> M - 1" "0 \<le> jj" "jj \<le> N - 1"
  shows "0 \<le> ii * N + jj" and "ii * N + jj < M * N"
proof -
  have N: "0 \<le> N" using assms by simp
  show "0 \<le> ii * N + jj" using assms N by simp
  have "ii * N \<le> (M - 1) * N" using assms(2) N by (rule mult_right_mono)
  then show "ii * N + jj < M * N" using assms(4) by (simp add: algebra_simps)
qed

lemma vec_put_ok:
  "0 \<le> i \<Longrightarrow> i < int (length xs) \<Longrightarrow> vec_put xs i v = Inr (xs[nat i := v])"
  by (simp add: vec_put_def)

lemma vec_at_ok:
  "0 \<le> i \<Longrightarrow> i < int (length xs) \<Longrightarrow> vec_at xs i = Inr (xs ! nat i)"
  by (simp add: vec_at_def)

lemma clear_column_total:
  assumes len: "int (length G) = M * N" and ii: "0 \<le> ii" "ii \<le> M - 1"
  shows "\<exists>G'. for_loop [0 .. N - 1] (\<lambda>jj G. vec_put G (ii * N + jj) False) G = Inr G' \<and> length G' = length G"
proof -
  have "\<exists>G'. for_loop [0 .. N - 1] (\<lambda>jj G. vec_put G (ii * N + jj) False) G = Inr G'
          \<and> int (length G') = M * N"
  proof (rule for_loop_total [where I = "\<lambda>G. int (length G) = M * N"])
    fix jj and H :: "bool list"
    assume jj: "jj \<in> set [0 .. N - 1]" and H: "int (length H) = M * N"
    from jj have "0 \<le> jj" "jj \<le> N - 1" by simp_all
    from idx_bound [OF ii this] H
    show "\<exists>s'. vec_put H (ii * N + jj) False = Inr s' \<and> int (length s') = M * N"
      by (simp add: vec_put_def)
  qed (rule len)
  with len show ?thesis by (metis of_nat_eq_iff)
qed

lemma all_four_total:
  assumes len: "int (length G) = M * N" and ii: "1 \<le> ii" "ii \<le> M - 1" and jj: "1 \<le> jj" "jj \<le> N - 1"
  shows "\<exists>b. all_four G N ii jj = Inr b"
proof -
  have a: "0 \<le> ii * N + jj" "ii * N + jj < M * N"
    using idx_bound [of ii M jj N] ii jj by simp_all
  have b: "0 \<le> (ii - 1) * N + jj" "(ii - 1) * N + jj < M * N"
    using idx_bound [of "ii - 1" M jj N] ii jj by simp_all
  have c: "0 \<le> (ii - 1) * N + (jj - 1)" "(ii - 1) * N + (jj - 1) < M * N"
    using idx_bound [of "ii - 1" M "jj - 1" N] ii jj by simp_all
  have d: "0 \<le> ii * N + (jj - 1)" "ii * N + (jj - 1) < M * N"
    using idx_bound [of ii M "jj - 1" N] ii jj by simp_all
  have c': "(ii - 1) * N + jj - 1 = (ii - 1) * N + (jj - 1)" and d': "ii * N + jj - 1 = ii * N + (jj - 1)"
    by simp_all
  show ?thesis
    unfolding all_four_def c' d'
    using a b c d len by (auto simp add: vec_at_def)
qed

lemma cell_index_bound:
  fixes ii jj N M :: int
  assumes "1 \<le> ii" "ii \<le> M - 1" "1 \<le> jj" "jj \<le> N - 1"
  shows "0 \<le> (N - 1) * (ii - 1) + jj - 1" and "(N - 1) * (ii - 1) + jj - 1 < (M - 1) * (N - 1)"
proof -
  have "0 \<le> (ii - 1) * (N - 1) + (jj - 1)" "(ii - 1) * (N - 1) + (jj - 1) < (M - 1) * (N - 1)"
    using idx_bound [of "ii - 1" "M - 1" "jj - 1" "N - 1"] assms by simp_all
  then show "0 \<le> (N - 1) * (ii - 1) + jj - 1" and "(N - 1) * (ii - 1) + jj - 1 < (M - 1) * (N - 1)"
    by (simp_all add: mult.commute)
qed

lemma pnpoly_total: "Vertices Test \<noteq> [] \<Longrightarrow> \<exists>b. pnpoly RC Test p = Inr b"
  by (simp add: pnpoly_def)

lemma WeightedArea_jj_total:
  assumes ok: "grid_ok D" and ne: "Vertices Test \<noteq> []"
    and len: "length G = length (GridInRegion D)"
    and ii: "0 \<le> ii" "ii \<le> Nx D - 1" and jj: "0 \<le> jj" "jj \<le> Ny D - 1"
  shows "\<exists>G' sm' y0'. WeightedArea_jj RC D Test ii x0 jj (G, sm, y0) = Inr (G', sm', y0')
           \<and> length G' = length (GridInRegion D)"
proof -
  from ok len have L: "int (length G) = Nx D * Ny D" by (simp add: grid_ok_def)
  from idx_bound [OF ii jj] L have i: "0 \<le> ii * Ny D + jj" "ii * Ny D + jj < int (length G)" by simp_all
  note put = vec_put_ok [OF i]
  obtain inside where inside: "pnpoly RC Test (Point x0 y0) = Inr inside"
    using pnpoly_total [OF ne] by blast
  show ?thesis
  proof (cases "y0 < miny Test \<or> y0 > maxy Test")
    case True
    then show ?thesis by (simp add: WeightedArea_jj_def put len)
  next
    case out: False
    show ?thesis
    proof (cases inside)
      case False
      with out show ?thesis by (simp add: WeightedArea_jj_def put len inside)
    next
      case True
      show ?thesis
      proof (cases "ii > 0 \<and> jj > 0")
        case False
        with out True show ?thesis by (auto simp add: WeightedArea_jj_def put len inside)
      next
        case pos: True
        let ?G = "G[nat (ii * Ny D + jj) := True]"
        have L': "int (length ?G) = Nx D * Ny D" using L by simp
        from pos have p: "1 \<le> ii" "1 \<le> jj" by simp_all
        obtain b where b: "all_four ?G (Ny D) ii jj = Inr b"
          using all_four_total [OF L' p(1) ii(2) p(2) jj(2)] by blast
        from cell_index_bound [OF p(1) ii(2) p(2) jj(2)] ok
        have "0 \<le> (Ny D - 1) * (ii - 1) + jj - 1"
          "(Ny D - 1) * (ii - 1) + jj - 1 < int (length (Int' (Integral D)))"
          by (simp_all add: grid_ok_def)
        note rd = vec_at_ok [OF this]
        from out True pos show ?thesis
          by (simp add: WeightedArea_jj_def put len inside b rd Let_def)
      qed
    qed
  qed
qed

lemma WeightedArea_ii_total:
  assumes ok: "grid_ok D" and ne: "Vertices Test \<noteq> []"
    and len: "length G = length (GridInRegion D)"
    and ii: "0 \<le> ii" "ii \<le> Nx D - 1"
  shows "\<exists>G' sm' x0' y0'. WeightedArea_ii RC D Test ii (G, sm, x0, y0) = Inr (G', sm', x0', y0')
           \<and> length G' = length (GridInRegion D)"
proof (cases "x0 < minx Test \<or> x0 > maxx Test")
  case True
  from ok len have L: "int (length G) = Nx D * Ny D" by (simp add: grid_ok_def)
  from clear_column_total [OF L ii] obtain G' where
    "for_loop [0 .. Ny D - 1] (\<lambda>jj G. vec_put G (ii * Ny D + jj) False) G = Inr G'" "length G' = length G"
    by blast
  with True len show ?thesis by (simp add: WeightedArea_ii_def)
next
  case False
  have "\<exists>s'. for_loop [0 .. Ny D - 1] (WeightedArea_jj RC D Test ii x0) (G, sm, Dminy D) = Inr s'
          \<and> (case s' of (G', sm', y0') \<Rightarrow> length G' = length (GridInRegion D))"
  proof (rule for_loop_total [where I = "\<lambda>(G', sm', y0'). length G' = length (GridInRegion D)"])
    fix jj and s :: "bool list \<times> double \<times> double"
    assume jj: "jj \<in> set [0 .. Ny D - 1]" and I: "case s of (G', sm', y0') \<Rightarrow> length G' = length (GridInRegion D)"
    obtain H sm y where s: "s = (H, sm, y)" by (cases s) auto
    from jj have j: "0 \<le> jj" "jj \<le> Ny D - 1" by simp_all
    from I s have "length H = length (GridInRegion D)" by simp
    from WeightedArea_jj_total [OF ok ne this ii j, of RC x0 sm y]
    show "\<exists>s'. WeightedArea_jj RC D Test ii x0 jj s = Inr s'
            \<and> (case s' of (G', sm', y0') \<Rightarrow> length G' = length (GridInRegion D))"
      unfolding s by auto
  qed (simp add: len)
  then obtain G' sm' y0' where
    "for_loop [0 .. Ny D - 1] (WeightedArea_jj RC D Test ii x0) (G, sm, Dminy D) = Inr (G', sm', y0')"
    "length G' = length (GridInRegion D)"
    by auto
  with False show ?thesis by (simp add: WeightedArea_ii_def)
qed

lemma WeightedArea_sum_total:
  assumes ok: "grid_ok D" and ne: "Vertices Test \<noteq> []"
  shows "\<exists>sm. WeightedArea_sum RC D Test = Inr sm"
proof -
  have "\<exists>s'. for_loop [0 .. Nx D - 1] (WeightedArea_ii RC D Test) (GetGridInRegion D, Fin 0, Dminx D, Dminy D) = Inr s'
          \<and> (case s' of (G', sm', x0', y0') \<Rightarrow> length G' = length (GridInRegion D))"
  proof (rule for_loop_total [where I = "\<lambda>(G', sm', x0', y0'). length G' = length (GridInRegion D)"])
    fix ii and s :: "bool list \<times> double \<times> double \<times> double"
    assume ii: "ii \<in> set [0 .. Nx D - 1]"
      and I: "case s of (G', sm', x0', y0') \<Rightarrow> length G' = length (GridInRegion D)"
    obtain H sm x y where s: "s = (H, sm, x, y)" by (cases s) auto
    from ii have i: "0 \<le> ii" "ii \<le> Nx D - 1" by simp_all
    from I s have "length H = length (GridInRegion D)" by simp
    from WeightedArea_ii_total [OF ok ne this i, of RC sm x y]
    show "\<exists>s'. WeightedArea_ii RC D Test ii s = Inr s'
            \<and> (case s' of (G', sm', x0', y0') \<Rightarrow> length G' = length (GridInRegion D))"
      unfolding s by auto
  qed (simp add: GetGridInRegion_def)
  then show ?thesis by (auto simp: WeightedArea_sum_def)
qed

lemma Centroid_jj_total_aux:
  assumes ok: "grid_ok D" and ne: "Vertices Test \<noteq> []"
    and len: "length G = length (GridInRegion D)"
    and ii: "0 \<le> ii" "ii \<le> Nx D - 1" and jj: "0 \<le> jj" "jj \<le> Ny D - 1"
  shows "\<exists>G' sm' y0'. Centroid_jj RC D Test ii x0 jj (G, (sx, sy), y0) = Inr (G', sm', y0')
           \<and> length G' = length (GridInRegion D)"
proof -
  from ok len have L: "int (length G) = Nx D * Ny D" by (simp add: grid_ok_def)
  from idx_bound [OF ii jj] L have i: "0 \<le> ii * Ny D + jj" "ii * Ny D + jj < int (length G)" by simp_all
  note put = vec_put_ok [OF i]
  obtain inside where inside: "pnpoly RC Test (Point x0 y0) = Inr inside"
    using pnpoly_total [OF ne] by blast
  show ?thesis
  proof (cases "y0 < miny Test \<or> y0 > maxy Test")
    case True
    then show ?thesis by (simp add: Centroid_jj_def put len)
  next
    case out: False
    show ?thesis
    proof (cases inside)
      case False
      with out show ?thesis by (simp add: Centroid_jj_def put len inside)
    next
      case True
      show ?thesis
      proof (cases "ii > 0 \<and> jj > 0")
        case False
        with out True show ?thesis by (auto simp add: Centroid_jj_def put len inside)
      next
        case pos: True
        let ?G = "G[nat (ii * Ny D + jj) := True]"
        have L': "int (length ?G) = Nx D * Ny D" using L by simp
        from pos have p: "1 \<le> ii" "1 \<le> jj" by simp_all
        obtain b where b: "all_four ?G (Ny D) ii jj = Inr b"
          using all_four_total [OF L' p(1) ii(2) p(2) jj(2)] by blast
        from cell_index_bound [OF p(1) ii(2) p(2) jj(2)] ok
        have ix: "0 \<le> (Ny D - 1) * (ii - 1) + jj - 1"
          "(Ny D - 1) * (ii - 1) + jj - 1 < int (length (Intx (Integral D)))"
          and iy: "0 \<le> (Ny D - 1) * (ii - 1) + jj - 1"
          "(Ny D - 1) * (ii - 1) + jj - 1 < int (length (Inty (Integral D)))"
          by (simp_all add: grid_ok_def)
        note rd = vec_at_ok [OF ix] vec_at_ok [OF iy]
        from out True pos show ?thesis
          by (simp add: Centroid_jj_def put len inside b rd Let_def)
      qed
    qed
  qed
qed

lemma Centroid_jj_total:
  assumes ok: "grid_ok D" and ne: "Vertices Test \<noteq> []"
    and len: "length G = length (GridInRegion D)"
    and ii: "0 \<le> ii" "ii \<le> Nx D - 1" and jj: "0 \<le> jj" "jj \<le> Ny D - 1"
  shows "\<exists>G' sm' y0'. Centroid_jj RC D Test ii x0 jj (G, s, y0) = Inr (G', sm', y0')
           \<and> length G' = length (GridInRegion D)"
  using Centroid_jj_total_aux [OF assms] by (cases s) simp

lemma Centroid_ii_total:
  assumes ok: "grid_ok D" and ne: "Vertices Test \<noteq> []"
    and len: "length G = length (GridInRegion D)"
    and ii: "0 \<le> ii" "ii \<le> Nx D - 1"
  shows "\<exists>G' sm' x0' y0'. Centroid_ii RC D Test ii (G, s, x0, y0) = Inr (G', sm', x0', y0')
           \<and> length G' = length (GridInRegion D)"
proof (cases "x0 < minx Test \<or> x0 > maxx Test")
  case True
  from ok len have L: "int (length G) = Nx D * Ny D" by (simp add: grid_ok_def)
  from clear_column_total [OF L ii] obtain G' where
    "for_loop [0 .. Ny D - 1] (\<lambda>jj G. vec_put G (ii * Ny D + jj) False) G = Inr G'" "length G' = length G"
    by blast
  with True len show ?thesis by (simp add: Centroid_ii_def)
next
  case False
  have "\<exists>s'. for_loop [0 .. Ny D - 1] (Centroid_jj RC D Test ii x0) (G, s, Dminy D) = Inr s'
          \<and> (case s' of (G', sm', y0') \<Rightarrow> length G' = length (GridInRegion D))"
  proof (rule for_loop_total [where I = "\<lambda>(G', sm', y0'). length G' = length (GridInRegion D)"])
    fix jj and s :: "bool list \<times> (double \<times> double) \<times> double"
    assume jj: "jj \<in> set [0 .. Ny D - 1]" and I: "case s of (G', sm', y0') \<Rightarrow> length G' = length (GridInRegion D)"
    obtain H sm y where s: "s = (H, sm, y)" by (cases s) auto
    from jj have j: "0 \<le> jj" "jj \<le> Ny D - 1" by simp_all
    from I s have "length H = length (GridInRegion D)" by simp
    from Centroid_jj_total [OF ok ne this ii j, of RC x0 sm y]
    show "\<exists>s'. Centroid_jj RC D Test ii x0 jj s = Inr s'
            \<and> (case s' of (G', sm', y0') \<Rightarrow> length G' = length (GridInRegion D))"
      unfolding s by auto
  qed (simp add: len)
  then obtain G' sm' y0' where
    "for_loop [0 .. Ny D - 1] (Centroid_jj RC D Test ii x0) (G, s, Dminy D) = Inr (G', sm', y0')"
    "length G' = length (GridInRegion D)"
    by auto
  with False show ?thesis by (simp add: Centroid_ii_def)
qed

lemma Centroid_sums_total:
  assumes ok: "grid_ok D" and ne: "Vertices Test \<noteq> []"
  shows "\<exists>s. Centroid_sums RC D Test = Inr s"
proof -
  have "\<exists>s'. for_loop [0 .. Nx D - 1] (Centroid_ii RC D Test) (GetGridInRegion D, (Fin 0, Fin 0), Dminx D, Dminy D) = Inr s'
          \<and> (case s' of (G', sm', x0', y0') \<Rightarrow> length G' = length (GridInRegion D))"
  proof (rule for_loop_total [where I = "\<lambda>(G', sm', x0', y0'). length G' = length (GridInRegion D)"])
    fix ii and s :: "bool list \<times> (double \<times> double) \<times> double \<times> double"
    assume ii: "ii \<in> set [0 .. Nx D - 1]"
      and I: "case s of (G', sm', x0', y0') \<Rightarrow> length G' = length (GridInRegion D)"
    obtain H sm x y where s: "s = (H, sm, x, y)" by (cases s) auto
    from ii have i: "0 \<le> ii" "ii \<le> Nx D - 1" by simp_all
    from I s have "length H = length (GridInRegion D)" by simp
    from Centroid_ii_total [OF ok ne this i, of RC sm x y]
    show "\<exists>s'. Centroid_ii RC D Test ii s = Inr s'
            \<and> (case s' of (G', sm', x0', y0') \<Rightarrow> length G' = length (GridInRegion D))"
      unfolding s by auto
  qed (simp add: GetGridInRegion_def)
  then show ?thesis by (auto simp: Centroid_sums_def)
qed

lemma GetNVertices_0: "GetNVertices Test = 0 \<longleftrightarrow> Vertices Test = []"
  by (simp add: GetNVertices_def NPoly_def)

lemma dge_self_or: "\<not> is_nan b \<Longrightarrow> (if a \<ge> b then a else b) \<ge> (b::double)"
  by (cases a; cases b) simp_all

subsection \<open>The grid walk adds up the cells inside the polygon\<close>

lemma idx_inj:
  fixes r c r' c' N :: int
  assumes "0 \<le> c" "c < N" "0 \<le> c'" "c' < N" "r * N + c = r' * N + c'"
  shows "r = r' \<and> c = c'"
proof -
  have "r = r'"
  proof (rule ccontr)
    assume "r \<noteq> r'"
    then consider "r + 1 \<le> r'" | "r' + 1 \<le> r" by linarith
    then show False
    proof cases
      case 1
      have N: "0 \<le> N" using assms by simp
      have "(r + 1) * N \<le> r' * N" using 1 N by (rule mult_right_mono)
      with assms show False by (simp add: algebra_simps)
    next
      case 2
      have N: "0 \<le> N" using assms by simp
      have "(r' + 1) * N \<le> r * N" using 2 N by (rule mult_right_mono)
      with assms show False by (simp add: algebra_simps)
    qed
  qed
  with assms show ?thesis by simp
qed

lemma flag_put:
  fixes N :: int
  assumes "0 \<le> r" "0 \<le> c" "c < N" "0 \<le> r'" "0 \<le> c'" "c' < N" "r * N + c < int (length G)"
  shows "G[nat (r * N + c) := b] ! nat (r' * N + c')
           = (if r' = r \<and> c' = c then b else G ! nat (r' * N + c'))"
proof -
  have N: "0 \<le> N" using assms by simp
  have p: "0 \<le> r * N + c" "0 \<le> r' * N + c'" using assms N by simp_all
  have "nat (r * N + c) = nat (r' * N + c') \<longleftrightarrow> r * N + c = r' * N + c'"
    using p by (simp add: eq_nat_nat_iff)
  also have "\<dots> \<longleftrightarrow> r' = r \<and> c' = c"
    using idx_inj [of c N c' r r'] assms by auto
  finally have eq: "nat (r * N + c) = nat (r' * N + c') \<longleftrightarrow> r' = r \<and> c' = c" .
  have lt: "nat (r * N + c) < length G" using assms(7) p(1) by linarith
  show ?thesis using eq lt by (simp add: nth_list_update)
qed

lemma all_four_eval:
  assumes len: "int (length G) = M * N" and ii: "1 \<le> ii" "ii \<le> M - 1" and jj: "1 \<le> jj" "jj \<le> N - 1"
  shows "all_four G N ii jj = Inr (G ! nat (ii * N + jj) \<and> G ! nat ((ii - 1) * N + jj)
           \<and> G ! nat ((ii - 1) * N + (jj - 1)) \<and> G ! nat (ii * N + (jj - 1)))"
proof -
  have a: "0 \<le> ii * N + jj" "ii * N + jj < M * N"
    using idx_bound [of ii M jj N] ii jj by simp_all
  have b: "0 \<le> (ii - 1) * N + jj" "(ii - 1) * N + jj < M * N"
    using idx_bound [of "ii - 1" M jj N] ii jj by simp_all
  have c: "0 \<le> (ii - 1) * N + (jj - 1)" "(ii - 1) * N + (jj - 1) < M * N"
    using idx_bound [of "ii - 1" M "jj - 1" N] ii jj by simp_all
  have d: "0 \<le> ii * N + (jj - 1)" "ii * N + (jj - 1) < M * N"
    using idx_bound [of ii M "jj - 1" N] ii jj by simp_all
  have c': "(ii - 1) * N + jj - 1 = (ii - 1) * N + (jj - 1)" and d': "ii * N + jj - 1 = ii * N + (jj - 1)"
    by simp_all
  show ?thesis
    unfolding all_four_def c' d'
    using a b c d len by (auto simp add: vec_at_def)
qed

lemma stepped_next: "0 \<le> n \<Longrightarrow> stepped a d (nat (n + 1)) = stepped a d (nat n) + d"
  by (simp add: nat_add_distrib)

lemma walk_flags_put:
  assumes w: "walk_flags RC D Test G ii jj"
    and ii: "0 \<le> ii" "ii \<le> Nx D - 1" and jj: "0 \<le> jj" "jj \<le> Ny D - 1"
    and b: "b = grid_inside RC D Test ii jj"
  shows "walk_flags RC D Test (G[nat (ii * Ny D + jj) := b]) ii (jj + 1)"
  unfolding walk_flags_def
proof (intro conjI allI impI)
  from w have L: "int (length G) = Nx D * Ny D" by (simp add: walk_flags_def)
  then show "int (length (G[nat (ii * Ny D + jj) := b])) = Nx D * Ny D" by simp
  fix r c
  assume h: "0 \<le> r \<and> 0 \<le> c \<and> c < Ny D \<and> (r < ii \<or> r = ii \<and> c < jj + 1)"
  from idx_bound [OF ii jj] L have lt: "ii * Ny D + jj < int (length G)" by simp
  have u: "G[nat (ii * Ny D + jj) := b] ! nat (r * Ny D + c)
         = (if r = ii \<and> c = jj then b else G ! nat (r * Ny D + c))"
    using flag_put [of ii jj "Ny D" r c G b] ii jj h lt by simp
  show "G[nat (ii * Ny D + jj) := b] ! nat (r * Ny D + c) = grid_inside RC D Test r c"
  proof (cases "r = ii \<and> c = jj")
    case True
    with u b show ?thesis by simp
  next
    case False
    with h have "r < ii \<or> r = ii \<and> c < jj" by auto
    with w h have "G ! nat (r * Ny D + c) = grid_inside RC D Test r c"
      unfolding walk_flags_def by blast
    with u False show ?thesis by simp
  qed
qed

lemma walk_flagsD:
  assumes "walk_flags RC D Test G ii jj" "0 \<le> r" "0 \<le> c" "c < Ny D" "r < ii \<or> (r = ii \<and> c < jj)"
  shows "G ! nat (r * Ny D + c) = grid_inside RC D Test r c"
  using assms unfolding walk_flags_def by blast

lemma WeightedArea_jj_step:
  assumes ok: "grid_ok D" and ne: "Vertices Test \<noteq> []"
    and w: "walk_flags RC D Test G ii jj"
    and ii: "0 \<le> ii" "ii \<le> Nx D - 1" and jj: "0 \<le> jj" "jj \<le> Ny D - 1"
    and x0: "x0 = stepped (Dminx D) (dx D) (nat ii)" and xin: "\<not> (x0 < minx Test \<or> x0 > maxx Test)"
    and y0: "y0 = stepped (Dminy D) (dy D) (nat jj)"
  shows "WeightedArea_jj RC D Test ii x0 jj (G, sm, y0)
       = Inr (G[nat (ii * Ny D + jj) := grid_inside RC D Test ii jj],
              (if 1 \<le> ii \<and> 1 \<le> jj \<and> cell_inside RC D Test ii jj
               then sm + Int' (Integral D) ! nat ((Ny D - 1) * (ii - 1) + jj - 1) else sm),
              y0 + dy D)"
proof -
  from w have L: "int (length G) = Nx D * Ny D" by (simp add: walk_flags_def)
  from idx_bound [OF ii jj] L have i: "0 \<le> ii * Ny D + jj" "ii * Ny D + jj < int (length G)" by simp_all
  note put = vec_put_ok [OF i]
  obtain inside where inside: "pnpoly RC Test (Point x0 y0) = Inr inside"
    using pnpoly_total [OF ne] by blast
  have gi: "grid_inside RC D Test ii jj = (\<not> (y0 < miny Test \<or> y0 > maxy Test) \<and> inside)"
    using x0 xin y0 inside by (simp add: grid_inside_def Let_def)
  have ci: "cell_inside RC D Test ii jj \<Longrightarrow> grid_inside RC D Test ii jj"
    by (simp add: cell_inside_def)
  show ?thesis
  proof (cases "y0 < miny Test \<or> y0 > maxy Test")
    case True
    with gi ci have "\<not> grid_inside RC D Test ii jj" "\<not> cell_inside RC D Test ii jj" by auto
    with True show ?thesis by (simp add: WeightedArea_jj_def put)
  next
    case out: False
    show ?thesis
    proof (cases inside)
      case False
      with gi ci have "\<not> grid_inside RC D Test ii jj" "\<not> cell_inside RC D Test ii jj" by auto
      with out False show ?thesis by (simp add: WeightedArea_jj_def put inside)
    next
      case True
      with gi out have g: "grid_inside RC D Test ii jj" by simp
      show ?thesis
      proof (cases "ii > 0 \<and> jj > 0")
        case False
        then have e1: "(ii > 0 \<and> jj > 0) = False" by simp
        from False have e2: "(1 \<le> ii \<and> 1 \<le> jj \<and> cell_inside RC D Test ii jj) = False" by auto
        show ?thesis
          unfolding WeightedArea_jj_def e1 e2 using out True g by (simp add: put inside)
      next
        case pos: True
        let ?G = "G[nat (ii * Ny D + jj) := True]"
        have L': "int (length ?G) = Nx D * Ny D" using L by simp
        from pos have p: "1 \<le> ii" "1 \<le> jj" by simp_all
        have w': "walk_flags RC D Test ?G ii (jj + 1)"
          using walk_flags_put [OF w ii jj] g by simp
        have f1: "?G ! nat (ii * Ny D + jj) = grid_inside RC D Test ii jj"
          by (rule walk_flagsD [OF w']) (use ii jj in simp_all)
        have f2: "?G ! nat ((ii - 1) * Ny D + jj) = grid_inside RC D Test (ii - 1) jj"
          by (rule walk_flagsD [OF w']) (use p jj in simp_all)
        have f3: "?G ! nat ((ii - 1) * Ny D + (jj - 1)) = grid_inside RC D Test (ii - 1) (jj - 1)"
          by (rule walk_flagsD [OF w']) (use p jj in simp_all)
        have f4: "?G ! nat (ii * Ny D + (jj - 1)) = grid_inside RC D Test ii (jj - 1)"
          by (rule walk_flagsD [OF w']) (use p ii jj in simp_all)
        have b: "all_four ?G (Ny D) ii jj = Inr (cell_inside RC D Test ii jj)"
          unfolding all_four_eval [OF L' p(1) ii(2) p(2) jj(2)] f1 f2 f3 f4 cell_inside_def ..
        from cell_index_bound [OF p(1) ii(2) p(2) jj(2)] ok
        have "0 \<le> (Ny D - 1) * (ii - 1) + jj - 1"
          "(Ny D - 1) * (ii - 1) + jj - 1 < int (length (Int' (Integral D)))"
          by (simp_all add: grid_ok_def)
        note rd = vec_at_ok [OF this]
        from out True pos p g show ?thesis
          by (simp add: WeightedArea_jj_def put inside b rd Let_def)
      qed
    qed
  qed
qed

lemma row_integrals_next:
  assumes "1 \<le> jj"
  shows "row_integrals RC D Test ii jj
       = row_integrals RC D Test ii (jj - 1)
         @ (if cell_inside RC D Test ii jj then [Int' (Integral D) ! nat ((Ny D - 1) * (ii - 1) + jj - 1)] else [])"
proof -
  have "[1 .. jj] = [1 .. jj - 1] @ [jj]" using assms by (simp add: upto_rec2)
  then show ?thesis by (simp add: row_integrals_def)
qed

lemma row_integrals_empty: "row_integrals RC D Test ii 0 = []"
  by (simp add: row_integrals_def)

lemma row_loop:
  assumes ok: "grid_ok D" and ne: "Vertices Test \<noteq> []"
    and w: "walk_flags RC D Test G ii 0"
    and ii: "0 \<le> ii" "ii \<le> Nx D - 1" and ny: "0 \<le> Ny D"
    and x0: "x0 = stepped (Dminx D) (dx D) (nat ii)" and xin: "\<not> (x0 < minx Test \<or> x0 > maxx Test)"
  shows "\<exists>G' y0'. for_loop [0 .. Ny D - 1] (WeightedArea_jj RC D Test ii x0) (G, sm, Dminy D)
           = Inr (G', (if 1 \<le> ii then foldl (+) sm (row_integrals RC D Test ii (Ny D - 1)) else sm), y0')
         \<and> walk_flags RC D Test G' (ii + 1) 0"
proof -
  let ?I = "\<lambda>jj (G', sm', y0'). walk_flags RC D Test G' ii jj
              \<and> sm' = (if 1 \<le> ii then foldl (+) sm (row_integrals RC D Test ii (jj - 1)) else sm)
              \<and> y0' = stepped (Dminy D) (dy D) (nat jj)"
  have "\<exists>s'. for_loop [0 .. Ny D - 1] (WeightedArea_jj RC D Test ii x0) (G, sm, Dminy D) = Inr s'
          \<and> ?I (Ny D - 1 + 1) s'"
  proof (rule for_loop_range [where I = ?I])
    show "0 \<le> Ny D - 1 + 1" using ny by simp
    have "row_integrals RC D Test ii (0 - 1) = []" by (simp add: row_integrals_def)
    then show "?I 0 (G, sm, Dminy D)" using w by simp
  next
    fix jj and s :: "bool list \<times> double \<times> double"
    assume jj: "0 \<le> jj" "jj \<le> Ny D - 1" and I: "?I jj s"
    obtain H t y where s: "s = (H, t, y)" by (cases s) auto
    from I s have wH: "walk_flags RC D Test H ii jj"
      and t: "t = (if 1 \<le> ii then foldl (+) sm (row_integrals RC D Test ii (jj - 1)) else sm)"
      and y: "y = stepped (Dminy D) (dy D) (nat jj)"
      by simp_all
    note st = WeightedArea_jj_step [OF ok ne wH ii jj x0 xin y, of t]
    have w': "walk_flags RC D Test (H[nat (ii * Ny D + jj) := grid_inside RC D Test ii jj]) ii (jj + 1)"
      using walk_flags_put [OF wH ii jj] by simp
    have t': "(if 1 \<le> ii \<and> 1 \<le> jj \<and> cell_inside RC D Test ii jj
               then t + Int' (Integral D) ! nat ((Ny D - 1) * (ii - 1) + jj - 1) else t)
            = (if 1 \<le> ii then foldl (+) sm (row_integrals RC D Test ii (jj + 1 - 1)) else sm)"
    proof (cases "1 \<le> jj")
      case True
      then show ?thesis using t by (simp add: row_integrals_next [OF True])
    next
      case False
      with jj have "jj = 0" by simp
      then show ?thesis using t by (simp add: row_integrals_def)
    qed
    have y': "y + dy D = stepped (Dminy D) (dy D) (nat (jj + 1))"
      using y jj(1) by (simp add: stepped_next)
    from st w' t' y' show "\<exists>s'. WeightedArea_jj RC D Test ii x0 jj s = Inr s' \<and> ?I (jj + 1) s'"
      unfolding s by simp
  qed
  then obtain G' sm' y0' where
    r: "for_loop [0 .. Ny D - 1] (WeightedArea_jj RC D Test ii x0) (G, sm, Dminy D) = Inr (G', sm', y0')"
    and w': "walk_flags RC D Test G' ii (Ny D)"
    and s': "sm' = (if 1 \<le> ii then foldl (+) sm (row_integrals RC D Test ii (Ny D - 1)) else sm)"
    by auto
  have "walk_flags RC D Test G' (ii + 1) 0"
    unfolding walk_flags_def
  proof (intro conjI allI impI)
    show "int (length G') = Nx D * Ny D" using w' by (simp add: walk_flags_def)
    fix r c
    assume h: "0 \<le> r \<and> 0 \<le> c \<and> c < Ny D \<and> (r < ii + 1 \<or> r = ii + 1 \<and> c < 0)"
    then have "r < ii \<or> (r = ii \<and> c < Ny D)" by auto
    with h show "G' ! nat (r * Ny D + c) = grid_inside RC D Test r c"
      using walk_flagsD [OF w', of r c] by simp
  qed
  with r s' show ?thesis by blast
qed

lemma grid_inside_out:
  assumes "x0 = stepped (Dminx D) (dx D) (nat ii)" "x0 < minx Test \<or> x0 > maxx Test"
  shows "\<not> grid_inside RC D Test ii jj"
  using assms by (auto simp add: grid_inside_def Let_def)

lemma row_integrals_out:
  assumes "x0 = stepped (Dminx D) (dx D) (nat ii)" "x0 < minx Test \<or> x0 > maxx Test"
  shows "row_integrals RC D Test ii jj = []"
proof -
  have "\<not> cell_inside RC D Test ii j" for j
    using grid_inside_out [OF assms] by (simp add: cell_inside_def)
  then show ?thesis by (simp add: row_integrals_def)
qed

lemma walk_flags_row_end:
  assumes "walk_flags RC D Test G ii (Ny D)"
  shows "walk_flags RC D Test G (ii + 1) 0"
  unfolding walk_flags_def
proof (intro conjI allI impI)
  show "int (length G) = Nx D * Ny D" using assms by (simp add: walk_flags_def)
  fix r c
  assume h: "0 \<le> r \<and> 0 \<le> c \<and> c < Ny D \<and> (r < ii + 1 \<or> r = ii + 1 \<and> c < 0)"
  then have "r < ii \<or> (r = ii \<and> c < Ny D)" by auto
  with h show "G ! nat (r * Ny D + c) = grid_inside RC D Test r c"
    using walk_flagsD [OF assms, of r c] by simp
qed

lemma walk_flags_no_columns:
  assumes "walk_flags RC D Test G ii 0" "Ny D \<le> 0"
  shows "walk_flags RC D Test G (ii + 1) 0"
  using assms unfolding walk_flags_def by auto

lemma clear_column:
  assumes w: "walk_flags RC D Test G ii 0"
    and ii: "0 \<le> ii" "ii \<le> Nx D - 1" and ny: "0 \<le> Ny D"
    and x0: "x0 = stepped (Dminx D) (dx D) (nat ii)" and xout: "x0 < minx Test \<or> x0 > maxx Test"
  shows "\<exists>G'. for_loop [0 .. Ny D - 1] (\<lambda>jj G. vec_put G (ii * Ny D + jj) False) G = Inr G'
           \<and> walk_flags RC D Test G' (ii + 1) 0"
proof -
  have "\<exists>G'. for_loop [0 .. Ny D - 1] (\<lambda>jj G. vec_put G (ii * Ny D + jj) False) G = Inr G'
          \<and> walk_flags RC D Test G' ii (Ny D - 1 + 1)"
  proof (rule for_loop_range [where I = "\<lambda>jj G'. walk_flags RC D Test G' ii jj"])
    show "0 \<le> Ny D - 1 + 1" using ny by simp
    show "walk_flags RC D Test G ii 0" by (rule w)
  next
    fix jj and H :: "bool list"
    assume jj: "0 \<le> jj" "jj \<le> Ny D - 1" and wH: "walk_flags RC D Test H ii jj"
    from wH have L: "int (length H) = Nx D * Ny D" by (simp add: walk_flags_def)
    from idx_bound [OF ii jj] L have i: "0 \<le> ii * Ny D + jj" "ii * Ny D + jj < int (length H)" by simp_all
    have "False = grid_inside RC D Test ii jj"
      using grid_inside_out [OF x0 xout, of RC jj] by simp
    then have "walk_flags RC D Test (H[nat (ii * Ny D + jj) := False]) ii (jj + 1)"
      by (rule walk_flags_put [OF wH ii jj])
    then show "\<exists>s'. vec_put H (ii * Ny D + jj) False = Inr s' \<and> walk_flags RC D Test s' ii (jj + 1)"
      by (simp add: vec_put_ok [OF i])
  qed
  then show ?thesis using walk_flags_row_end by auto
qed

lemma WeightedArea_ii_step:
  assumes ok: "grid_ok D" and ne: "Vertices Test \<noteq> []"
    and w: "walk_flags RC D Test G ii 0"
    and ii: "0 \<le> ii" "ii \<le> Nx D - 1"
    and x0: "x0 = stepped (Dminx D) (dx D) (nat ii)"
  shows "\<exists>G' y0'. WeightedArea_ii RC D Test ii (G, sm, x0, y0)
           = Inr (G', (if 1 \<le> ii then foldl (+) sm (row_integrals RC D Test ii (Ny D - 1)) else sm),
                  x0 + dx D, y0')
         \<and> walk_flags RC D Test G' (ii + 1) 0"
proof (cases "0 \<le> Ny D")
  case False
  then have e: "[0 .. Ny D - 1] = []" and r: "row_integrals RC D Test ii (Ny D - 1) = []"
    by (simp_all add: row_integrals_def)
  from False have "walk_flags RC D Test G (ii + 1) 0"
    using walk_flags_no_columns [OF w] by simp
  then show ?thesis by (simp add: WeightedArea_ii_def e r)
next
  case ny: True
  show ?thesis
  proof (cases "x0 < minx Test \<or> x0 > maxx Test")
    case True
    from clear_column [OF w ii ny x0 True] obtain G' where
      "for_loop [0 .. Ny D - 1] (\<lambda>jj G. vec_put G (ii * Ny D + jj) False) G = Inr G'"
      "walk_flags RC D Test G' (ii + 1) 0"
      by blast
    with True show ?thesis by (simp add: WeightedArea_ii_def row_integrals_out [OF x0 True])
  next
    case False
    from row_loop [OF ok ne w ii ny x0 False, of sm] obtain G' y0' where
      "for_loop [0 .. Ny D - 1] (WeightedArea_jj RC D Test ii x0) (G, sm, Dminy D)
           = Inr (G', (if 1 \<le> ii then foldl (+) sm (row_integrals RC D Test ii (Ny D - 1)) else sm), y0')"
      "walk_flags RC D Test G' (ii + 1) 0"
      by blast
    with False show ?thesis by (simp add: WeightedArea_ii_def)
  qed
qed

lemma WeightedArea_sum_eq:
  assumes ok: "grid_ok D" and ne: "Vertices Test \<noteq> []"
  shows "WeightedArea_sum RC D Test = Inr (per_cell_sum RC D Test)"
proof (cases "0 \<le> Nx D")
  case False
  then have "[0 .. Nx D - 1] = []" "[1 .. Nx D - 1] = []" by simp_all
  then show ?thesis by (simp add: WeightedArea_sum_def per_cell_sum_def cell_integrals_def)
next
  case nx: True
  let ?rows = "\<lambda>ii. concat (map (\<lambda>i. row_integrals RC D Test i (Ny D - 1)) [1 .. ii - 1])"
  let ?I = "\<lambda>ii (G, sm, x0, y0). walk_flags RC D Test G ii 0
              \<and> sm = foldl (+) (Fin 0) (?rows ii)
              \<and> x0 = stepped (Dminx D) (dx D) (nat ii)"
  have "\<exists>s'. for_loop [0 .. Nx D - 1] (WeightedArea_ii RC D Test) (GetGridInRegion D, Fin 0, Dminx D, Dminy D)
          = Inr s' \<and> ?I (Nx D - 1 + 1) s'"
  proof (rule for_loop_range [where I = ?I])
    show "0 \<le> Nx D - 1 + 1" using nx by simp
    have "walk_flags RC D Test (GridInRegion D) 0 0"
      using ok by (auto simp add: walk_flags_def grid_ok_def)
    then show "?I 0 (GetGridInRegion D, Fin 0, Dminx D, Dminy D)"
      by (simp add: GetGridInRegion_def)
  next
    fix ii and s :: "bool list \<times> double \<times> double \<times> double"
    assume ii: "0 \<le> ii" "ii \<le> Nx D - 1" and I: "?I ii s"
    obtain H t x y where s: "s = (H, t, x, y)" by (cases s) auto
    from I s have wH: "walk_flags RC D Test H ii 0"
      and t: "t = foldl (+) (Fin 0) (?rows ii)"
      and x: "x = stepped (Dminx D) (dx D) (nat ii)"
      by simp_all
    from WeightedArea_ii_step [OF ok ne wH ii x, of t y] obtain G' y0' where
      st: "WeightedArea_ii RC D Test ii (H, t, x, y)
           = Inr (G', (if 1 \<le> ii then foldl (+) t (row_integrals RC D Test ii (Ny D - 1)) else t),
                  x + dx D, y0')"
      and w': "walk_flags RC D Test G' (ii + 1) 0"
      by blast
    have t': "(if 1 \<le> ii then foldl (+) t (row_integrals RC D Test ii (Ny D - 1)) else t)
            = foldl (+) (Fin 0) (?rows (ii + 1))"
    proof (cases "1 \<le> ii")
      case True
      then have "[1 .. ii + 1 - 1] = [1 .. ii - 1] @ [ii]" by (simp add: upto_rec2)
      with True t show ?thesis by simp
    next
      case False
      with ii have "ii = 0" by simp
      with t show ?thesis by simp
    qed
    have x': "x + dx D = stepped (Dminx D) (dx D) (nat (ii + 1))"
      using x ii(1) by (simp add: stepped_next)
    from st w' t' x' show "\<exists>s'. WeightedArea_ii RC D Test ii s = Inr s' \<and> ?I (ii + 1) s'"
      unfolding s by simp
  qed
  then show ?thesis
    by (auto simp add: WeightedArea_sum_def per_cell_sum_def cell_integrals_def)
qed

text \<open>
  C3 (amended).  With sample values set, \<^verbatim>\<open>CalculateWeightedArea\<close> returns the lower bound for the polygon
  with zero vertices.  For a polygon with vertices, on a density whose vectors have the
  sizes of its grid, the grid walk returns the sum of the integrals of the cells whose
  four corners are flagged, added up from zero in the order of the walk, and the result is
  that sum when it is at least the lower bound, and the lower bound otherwise.  Every value
  returned is at least the lower bound when the lower bound is a number, not \<open>NaN\<close>.
\<close>

theorem CalculateWeightedArea_clamped:
  "Values D \<noteq> [] \<longrightarrow>
     (GetNVertices Test = 0 \<longrightarrow> CalculateWeightedArea RC D Test = Inr (Volume_Lower_Bound D))
   \<and> (GetNVertices Test \<noteq> 0 \<and> grid_ok D \<longrightarrow>
        WeightedArea_sum RC D Test = Inr (per_cell_sum RC D Test)
        \<and> CalculateWeightedArea RC D Test
            = Inr (if per_cell_sum RC D Test \<ge> Volume_Lower_Bound D
                   then per_cell_sum RC D Test else Volume_Lower_Bound D))
   \<and> (\<forall>v. CalculateWeightedArea RC D Test = Inr v \<and> \<not> is_nan (Volume_Lower_Bound D)
          \<longrightarrow> v \<ge> Volume_Lower_Bound D)"
proof (intro impI conjI allI)
  assume v: "Values D \<noteq> []"
  {
    assume "GetNVertices Test = 0"
    with v show "CalculateWeightedArea RC D Test = Inr (Volume_Lower_Bound D)"
      by (simp add: CalculateWeightedArea_def)
  }
  {
    assume a: "GetNVertices Test \<noteq> 0 \<and> grid_ok D"
    then have "Vertices Test \<noteq> []" by (simp add: GetNVertices_0)
    with a show sm: "WeightedArea_sum RC D Test = Inr (per_cell_sum RC D Test)"
      by (simp add: WeightedArea_sum_eq)
    with v a show "CalculateWeightedArea RC D Test
            = Inr (if per_cell_sum RC D Test \<ge> Volume_Lower_Bound D
                   then per_cell_sum RC D Test else Volume_Lower_Bound D)"
      by (simp add: CalculateWeightedArea_def)
  }
  {
    fix r
    assume a: "CalculateWeightedArea RC D Test = Inr r \<and> \<not> is_nan (Volume_Lower_Bound D)"
    then have nn: "\<not> is_nan (Volume_Lower_Bound D)" by simp
    show "r \<ge> Volume_Lower_Bound D"
    proof (cases "GetNVertices Test = 0")
      case True
      with a v have "r = Volume_Lower_Bound D" by (simp add: CalculateWeightedArea_def)
      with nn show ?thesis by (simp add: dle_refl)
    next
      case False
      with a v have "ebind (WeightedArea_sum RC D Test)
          (\<lambda>sm. if sm \<ge> Volume_Lower_Bound D then Inr sm else Inr (Volume_Lower_Bound D)) = Inr r"
        by (simp add: CalculateWeightedArea_def)
      then obtain sm where
        "(if sm \<ge> Volume_Lower_Bound D then Inr sm else Inr (Volume_Lower_Bound D)) = (Inr r :: error + double)"
        unfolding ebind_eq_Inr by blast
      then have "r = (if sm \<ge> Volume_Lower_Bound D then sm else Volume_Lower_Bound D)"
        by (simp split: if_splits)
      with dge_self_or [OF nn, of sm] show ?thesis by simp
    qed
  }
qed

lemma upto_0_1: "[0 .. (1::int)] = [0, 1]"
  by (simp add: upto_rec1)

lemma small_triangle_sum: "WeightedArea_sum RC uniform_density small_triangle = Inr (Fin 0)"
  by (simp add: WeightedArea_sum_def WeightedArea_ii_def uniform_density_def small_triangle_def
        GetGridInRegion_def upto_0_1 vec_put_def)

lemma unit_square_edges:
  "edges unit_square =
     [(Point (Fin 0) (Fin 1), Point (Fin 0) (Fin 0)), (Point (Fin 0) (Fin 0), Point (Fin 1) (Fin 0)),
      (Point (Fin 1) (Fin 0), Point (Fin 1) (Fin 1)), (Point (Fin 1) (Fin 1), Point (Fin 0) (Fin 1))]"
  by (simp add: edges_def unit_square_def)

lemma unit_square_corners:
  "pnpoly (Fin (1 / 10000000)) unit_square (Point (Fin 0) (Fin 0)) = Inr True"
  "pnpoly (Fin (1 / 10000000)) unit_square (Point (Fin 1) (Fin 0)) = Inr True"
  "pnpoly (Fin (1 / 10000000)) unit_square (Point (Fin 1) (Fin 1)) = Inr True"
  "pnpoly (Fin (1 / 10000000)) unit_square (Point (Fin 0) (Fin 1)) = Inr True"
proof -
  show "pnpoly (Fin (1 / 10000000)) unit_square (Point (Fin 0) (Fin 0)) = Inr True"
    by (rule pnpoly_between [of "Point (Fin 0) (Fin 1)" "Point (Fin 0) (Fin 0)"])
      (simp_all add: unit_square_edges AreBetween_def AreCollinear_def PerpDistanceToLine_def Distance_def)
  show "pnpoly (Fin (1 / 10000000)) unit_square (Point (Fin 1) (Fin 0)) = Inr True"
    by (rule pnpoly_between [of "Point (Fin 0) (Fin 0)" "Point (Fin 1) (Fin 0)"])
      (simp_all add: unit_square_edges AreBetween_def AreCollinear_def PerpDistanceToLine_def Distance_def)
  show "pnpoly (Fin (1 / 10000000)) unit_square (Point (Fin 1) (Fin 1)) = Inr True"
    by (rule pnpoly_between [of "Point (Fin 1) (Fin 0)" "Point (Fin 1) (Fin 1)"])
      (simp_all add: unit_square_edges AreBetween_def AreCollinear_def PerpDistanceToLine_def Distance_def)
  show "pnpoly (Fin (1 / 10000000)) unit_square (Point (Fin 0) (Fin 1)) = Inr True"
    by (rule pnpoly_between [of "Point (Fin 1) (Fin 1)" "Point (Fin 0) (Fin 1)"])
      (simp_all add: unit_square_edges AreBetween_def AreCollinear_def PerpDistanceToLine_def Distance_def)
qed

lemma upto_1_1: "[1 .. (1::int)] = [1]"
  by (simp add: upto_rec1)

lemma unit_square_sum: "per_cell_sum (Fin (1 / 10000000)) uniform_density unit_square = Fin 1"
proof -
  have x: "stepped (Fin 0) (Fin 1) (nat 0) = Fin 0" "stepped (Fin 0) (Fin 1) (nat 1) = Fin 1"
    by (simp_all add: nat_1)
  have "grid_inside (Fin (1 / 10000000)) uniform_density unit_square ii jj"
    if "ii = 0 \<or> ii = 1" "jj = 0 \<or> jj = 1" for ii jj
    using that unit_square_corners
    by (auto simp add: grid_inside_def Let_def uniform_density_def unit_square_def x)
  then have "cell_inside (Fin (1 / 10000000)) uniform_density unit_square 1 1"
    by (simp add: cell_inside_def)
  then show ?thesis
    by (simp add: per_cell_sum_def cell_integrals_def row_integrals_def uniform_density_def upto_1_1)
qed

lemma small_triangle_cells: "per_cell_sum RC uniform_density small_triangle = Fin 0"
proof -
  have "\<not> grid_inside RC uniform_density small_triangle 1 1"
    by (simp add: grid_inside_def Let_def uniform_density_def small_triangle_def nat_1)
  then have "\<not> cell_inside RC uniform_density small_triangle 1 1"
    by (simp add: cell_inside_def)
  then show ?thesis
    by (simp add: per_cell_sum_def cell_integrals_def row_integrals_def uniform_density_def upto_1_1)
qed

theorem CalculateWeightedArea_clamped_witness:
  "Values uniform_density \<noteq> [] \<and> GetNVertices empty_poly = 0
   \<and> CalculateWeightedArea (Fin (1 / 10000000)) uniform_density empty_poly = Inr (Fin (1 / 100000))
   \<and> GetNVertices small_triangle \<noteq> 0 \<and> GetNVertices unit_square \<noteq> 0 \<and> grid_ok uniform_density
   \<and> WeightedArea_sum (Fin (1 / 10000000)) uniform_density small_triangle = Inr (Fin 0)
   \<and> CalculateWeightedArea (Fin (1 / 10000000)) uniform_density small_triangle = Inr (Fin (1 / 100000))
   \<and> WeightedArea_sum (Fin (1 / 10000000)) uniform_density unit_square = Inr (Fin 1)
   \<and> CalculateWeightedArea (Fin (1 / 10000000)) uniform_density unit_square = Inr (Fin 1)
   \<and> \<not> is_nan (Volume_Lower_Bound uniform_density)
   \<and> Fin 1 \<ge> Volume_Lower_Bound uniform_density"
proof -
  have v: "Values uniform_density \<noteq> []" by (simp add: uniform_density_def)
  have e: "GetNVertices empty_poly = 0" by (simp add: GetNVertices_def NPoly_def empty_poly_def)
  have t: "GetNVertices small_triangle \<noteq> 0 \<and> grid_ok uniform_density"
    by (simp add: GetNVertices_def NPoly_def small_triangle_def grid_ok_def uniform_density_def)
  have u: "GetNVertices unit_square \<noteq> 0 \<and> grid_ok uniform_density"
    by (simp add: GetNVertices_def NPoly_def unit_square_def grid_ok_def uniform_density_def)
  have b: "Volume_Lower_Bound uniform_density = Fin (1 / 100000)" by (simp add: uniform_density_def)
  from CalculateWeightedArea_clamped [of uniform_density empty_poly "Fin (1 / 10000000)"] v e b
  have 1: "CalculateWeightedArea (Fin (1 / 10000000)) uniform_density empty_poly = Inr (Fin (1 / 100000))"
    by simp
  from CalculateWeightedArea_clamped [of uniform_density small_triangle "Fin (1 / 10000000)"] v t
  have 2: "WeightedArea_sum (Fin (1 / 10000000)) uniform_density small_triangle = Inr (Fin 0)"
    "CalculateWeightedArea (Fin (1 / 10000000)) uniform_density small_triangle = Inr (Fin (1 / 100000))"
    by (simp_all add: small_triangle_cells b)
  from CalculateWeightedArea_clamped [of uniform_density unit_square "Fin (1 / 10000000)"] v u
  have 3: "WeightedArea_sum (Fin (1 / 10000000)) uniform_density unit_square = Inr (Fin 1)"
    "CalculateWeightedArea (Fin (1 / 10000000)) uniform_density unit_square = Inr (Fin 1)"
    by (simp_all add: unit_square_sum b)
  have n: "\<not> is_nan (Volume_Lower_Bound uniform_density)" by (simp add: b)
  from CalculateWeightedArea_clamped [of uniform_density unit_square "Fin (1 / 10000000)"] v 3(2) n
  have 4: "Fin 1 \<ge> Volume_Lower_Bound uniform_density"
    by blast
  from v e 1 t u 2 3 n 4 show ?thesis by blast
qed

text \<open>
  C3, as stated, fails when the lower bound is \<open>NaN\<close>, which \<^verbatim>\<open>SetVolumeLowerBound\<close> stores like any
  other value: both comparisons with it are false, the function returns \<open>NaN\<close> for the empty
  polygon and for the unit square, and \<open>NaN\<close> is not greater than or equal to the bound.
\<close>

theorem CalculateWeightedArea_counterexample:
  "Values (SetVolumeLowerBound uniform_density NaN) \<noteq> []
   \<and> GetNVertices empty_poly = 0
   \<and> CalculateWeightedArea (Fin (1 / 10000000)) (SetVolumeLowerBound uniform_density NaN) empty_poly = Inr NaN
   \<and> GetNVertices unit_square \<noteq> 0
   \<and> CalculateWeightedArea (Fin (1 / 10000000)) (SetVolumeLowerBound uniform_density NaN) unit_square = Inr NaN
   \<and> \<not> (NaN \<ge> Volume_Lower_Bound (SetVolumeLowerBound uniform_density NaN))"
proof -
  have g: "grid_ok (SetVolumeLowerBound uniform_density NaN)"
    by (simp add: SetVolumeLowerBound_def grid_ok_def uniform_density_def)
  have n: "Vertices unit_square \<noteq> []" by (simp add: unit_square_def)
  obtain sm where "WeightedArea_sum (Fin (1 / 10000000)) (SetVolumeLowerBound uniform_density NaN) unit_square = Inr sm"
    using WeightedArea_sum_total [OF g n] by blast
  moreover have "\<not> sm \<ge> NaN" by (cases sm) simp_all
  ultimately have "CalculateWeightedArea (Fin (1 / 10000000)) (SetVolumeLowerBound uniform_density NaN) unit_square = Inr NaN"
    by (simp add: CalculateWeightedArea_def SetVolumeLowerBound_def uniform_density_def GetNVertices_def
          NPoly_def unit_square_def)
  then show ?thesis
    by (simp add: CalculateWeightedArea_def SetVolumeLowerBound_def uniform_density_def GetNVertices_def
          NPoly_def empty_poly_def unit_square_def)
qed

text \<open>
  C4 (amended).  With sample values set, \<^verbatim>\<open>CalculateCentroid\<close> returns, for the polygon with
  zero vertices, the default-constructed point, whose coordinates are both \<^verbatim>\<open>INFINITY\<close>
  (not the origin); for a polygon with vertices and a supplied volume at most the lower
  bound, on a density whose vectors have the sizes of its grid, it returns the cached
  bounding-box minimum corner \<open>(minx, miny)\<close> of the polygon.
\<close>

theorem CalculateCentroid_sentinels:
  "Values D \<noteq> [] \<longrightarrow>
     (GetNVertices Test = 0 \<longrightarrow> CalculateCentroid RC D Test Volume = Inr (Point INFINITY INFINITY))
   \<and> (GetNVertices Test \<noteq> 0 \<and> grid_ok D \<and> Volume \<le> Volume_Lower_Bound D \<longrightarrow>
        CalculateCentroid RC D Test Volume = Inr (Point (minx Test) (miny Test)))"
proof (intro impI conjI)
  assume v: "Values D \<noteq> []"
  {
    assume "GetNVertices Test = 0"
    with v show "CalculateCentroid RC D Test Volume = Inr (Point INFINITY INFINITY)"
      by (simp add: CalculateCentroid_def Point_default_def)
  }
  {
    assume a: "GetNVertices Test \<noteq> 0 \<and> grid_ok D \<and> Volume \<le> Volume_Lower_Bound D"
    then have "Vertices Test \<noteq> []" by (simp add: GetNVertices_0)
    with a obtain s where "Centroid_sums RC D Test = Inr s"
      using Centroid_sums_total by blast
    with v a show "CalculateCentroid RC D Test Volume = Inr (Point (minx Test) (miny Test))"
      by (cases s) (simp add: CalculateCentroid_def)
  }
qed

theorem CalculateCentroid_sentinels_witness:
  "Values uniform_density \<noteq> [] \<and> GetNVertices empty_poly = 0
   \<and> CalculateCentroid (Fin (1 / 10000000)) uniform_density empty_poly (Fin (1 / 100000)) = Inr (Point PInf PInf)
   \<and> GetNVertices small_triangle \<noteq> 0 \<and> grid_ok uniform_density
   \<and> Fin (1 / 100000) \<le> Volume_Lower_Bound uniform_density
   \<and> CalculateCentroid (Fin (1 / 10000000)) uniform_density small_triangle (Fin (1 / 100000))
       = Inr (Point (Fin (1 / 4)) (Fin (1 / 4)))"
proof -
  have v: "Values uniform_density \<noteq> []" by (simp add: uniform_density_def)
  have e: "GetNVertices empty_poly = 0" by (simp add: GetNVertices_def NPoly_def empty_poly_def)
  have t: "GetNVertices small_triangle \<noteq> 0 \<and> grid_ok uniform_density"
    by (simp add: GetNVertices_def NPoly_def small_triangle_def grid_ok_def uniform_density_def)
  have b: "Fin (1 / 100000) \<le> Volume_Lower_Bound uniform_density" by (simp add: uniform_density_def)
  from CalculateCentroid_sentinels [of uniform_density empty_poly "Fin (1 / 10000000)" "Fin (1 / 100000)"] v e
  have 1: "CalculateCentroid (Fin (1 / 10000000)) uniform_density empty_poly (Fin (1 / 100000)) = Inr (Point PInf PInf)"
    by (simp add: INFINITY_def)
  from CalculateCentroid_sentinels [of uniform_density small_triangle "Fin (1 / 10000000)" "Fin (1 / 100000)"] v t b
  have 2: "CalculateCentroid (Fin (1 / 10000000)) uniform_density small_triangle (Fin (1 / 100000))
       = Inr (Point (Fin (1 / 4)) (Fin (1 / 4)))"
    by (simp add: small_triangle_def)
  from v e 1 t b 2 show ?thesis by blast
qed

text \<open>
  C4 as stated fails: for the empty polygon the result is \<open>(+\<infinity>, +\<infinity>)\<close> and not the
  coordinate origin.
\<close>

theorem CalculateCentroid_counterexample:
  "Values uniform_density \<noteq> [] \<and> GetNVertices empty_poly = 0
   \<and> CalculateCentroid (Fin (1 / 10000000)) uniform_density empty_poly (Fin (1 / 100000)) = Inr (Point PInf PInf)
   \<and> CalculateCentroid (Fin (1 / 10000000)) uniform_density empty_poly (Fin (1 / 100000)) \<noteq> Inr (Point (Fin 0) (Fin 0))"
  by (simp add: CalculateCentroid_def uniform_density_def empty_poly_def GetNVertices_def NPoly_def
        Point_default_def INFINITY_def)

section \<open>Partition: parameter validation\<close>

lemma CheckParams_sum_eq:
  "CheckParams_sum VLB ds s =
     (if list_ex (\<lambda>a. a \<le> VLB) ds then Inl DesiredAreaTooSmall else Inr (foldl (+) s ds))"
  by (induction ds arbitrary: s) simp_all

lemma CheckParams_normalize_eq:
  "CheckParams_normalize VLB sm ds =
     (if list_ex (\<lambda>a. a / sm < VLB) ds then Inl NormalizedAreaTooSmall else Inr (map (\<lambda>a. a / sm) ds))"
  by (induction ds) (simp_all add: Let_def)

text \<open>
  C6 (amended).  \<^verbatim>\<open>CheckParams\<close> with \<open>NRegions > 0\<close> sets the lower bound of the prior and then:
  with an empty desired-area vector it fills in \<open>NRegions\<close> entries \<open>1 / NRegions\<close> when the
  lower bound is at most \<open>1 / NRegions\<close>, and raises an error when the lower bound is
  larger; with a non-empty vector of another size it raises an error; with an entry at or
  below the lower bound it raises an error; otherwise, when the sum of the entries
  differs from 1, it writes the warning and divides every entry by the sum, raising an
  error if a quotient is below the lower bound; and when the sum is 1 it changes nothing
  else.
\<close>

theorem CheckParams_behaviour:
  "0 < NRegions S \<longrightarrow>
     (let VLB = Alg_Volume_Lower_Bound (Alg_Params S);
          N = NRegions S;
          ds = desired_area S;
          total = foldl (+) (Fin 0) ds;
          S' = S\<lparr>Prior := SetVolumeLowerBound (Prior S) VLB\<rparr>
      in
        (ds = [] \<and> VLB \<le> Fin 1 / of_int_double N \<longrightarrow>
           CheckParams S = Inr (S'\<lparr>desired_area := replicate (nat N) (Fin 1 / of_int_double N)\<rparr>, []))
      \<and> (ds = [] \<and> \<not> VLB \<le> Fin 1 / of_int_double N \<longrightarrow>
           CheckParams S = Inl VolumeLowerBoundTooLarge)
      \<and> (ds \<noteq> [] \<and> int (length ds) \<noteq> N \<longrightarrow> CheckParams S = Inl DesiredAreaSize)
      \<and> (int (length ds) = N \<and> list_ex (\<lambda>a. a \<le> VLB) ds \<longrightarrow> CheckParams S = Inl DesiredAreaTooSmall)
      \<and> (int (length ds) = N \<and> \<not> list_ex (\<lambda>a. a \<le> VLB) ds \<and> \<not> deq total (Fin 1) \<longrightarrow>
           CheckParams S =
             (if list_ex (\<lambda>a. a / total < VLB) ds then Inl NormalizedAreaTooSmall
              else Inr (S'\<lparr>desired_area := map (\<lambda>a. a / total) ds\<rparr>, [normalize_warning])))
      \<and> (int (length ds) = N \<and> \<not> list_ex (\<lambda>a. a \<le> VLB) ds \<and> deq total (Fin 1) \<longrightarrow>
           CheckParams S = Inr (S', [])))"
proof
  assume N: "0 < NRegions S"
  then have ne: "int (length (desired_area S)) = NRegions S \<Longrightarrow> desired_area S \<noteq> []"
    by auto
  show "let VLB = Alg_Volume_Lower_Bound (Alg_Params S);
          N = NRegions S;
          ds = desired_area S;
          total = foldl (+) (Fin 0) ds;
          S' = S\<lparr>Prior := SetVolumeLowerBound (Prior S) VLB\<rparr>
      in
        (ds = [] \<and> VLB \<le> Fin 1 / of_int_double N \<longrightarrow>
           CheckParams S = Inr (S'\<lparr>desired_area := replicate (nat N) (Fin 1 / of_int_double N)\<rparr>, []))
      \<and> (ds = [] \<and> \<not> VLB \<le> Fin 1 / of_int_double N \<longrightarrow>
           CheckParams S = Inl VolumeLowerBoundTooLarge)
      \<and> (ds \<noteq> [] \<and> int (length ds) \<noteq> N \<longrightarrow> CheckParams S = Inl DesiredAreaSize)
      \<and> (int (length ds) = N \<and> list_ex (\<lambda>a. a \<le> VLB) ds \<longrightarrow> CheckParams S = Inl DesiredAreaTooSmall)
      \<and> (int (length ds) = N \<and> \<not> list_ex (\<lambda>a. a \<le> VLB) ds \<and> \<not> deq total (Fin 1) \<longrightarrow>
           CheckParams S =
             (if list_ex (\<lambda>a. a / total < VLB) ds then Inl NormalizedAreaTooSmall
              else Inr (S'\<lparr>desired_area := map (\<lambda>a. a / total) ds\<rparr>, [normalize_warning])))
      \<and> (int (length ds) = N \<and> \<not> list_ex (\<lambda>a. a \<le> VLB) ds \<and> deq total (Fin 1) \<longrightarrow>
           CheckParams S = Inr (S', []))"
    unfolding Let_def
  proof (intro conjI impI)
    assume "desired_area S = [] \<and> Alg_Volume_Lower_Bound (Alg_Params S) \<le> Fin 1 / of_int_double (NRegions S)"
    with N show "CheckParams S = Inr (S\<lparr>Prior := SetVolumeLowerBound (Prior S) (Alg_Volume_Lower_Bound (Alg_Params S)),
        desired_area := replicate (nat (NRegions S)) (Fin 1 / of_int_double (NRegions S))\<rparr>, [])"
      by (simp add: CheckParams_def Let_def)
  next
    assume "desired_area S = [] \<and> \<not> Alg_Volume_Lower_Bound (Alg_Params S) \<le> Fin 1 / of_int_double (NRegions S)"
    with N show "CheckParams S = Inl VolumeLowerBoundTooLarge"
      by (simp add: CheckParams_def Let_def)
  next
    assume "desired_area S \<noteq> [] \<and> int (length (desired_area S)) \<noteq> NRegions S"
    then show "CheckParams S = Inl DesiredAreaSize"
      by (simp add: CheckParams_def Let_def)
  next
    assume a: "int (length (desired_area S)) = NRegions S
      \<and> list_ex (\<lambda>a. a \<le> Alg_Volume_Lower_Bound (Alg_Params S)) (desired_area S)"
    with ne have "desired_area S \<noteq> []" by simp
    with a show "CheckParams S = Inl DesiredAreaTooSmall"
      by (simp add: CheckParams_def Let_def CheckParams_sum_eq)
  next
    assume a: "int (length (desired_area S)) = NRegions S
      \<and> \<not> list_ex (\<lambda>a. a \<le> Alg_Volume_Lower_Bound (Alg_Params S)) (desired_area S)
      \<and> \<not> deq (foldl (+) (Fin 0) (desired_area S)) (Fin 1)"
    with ne have "desired_area S \<noteq> []" by simp
    with a show "CheckParams S =
       (if list_ex (\<lambda>a. a / foldl (+) (Fin 0) (desired_area S) < Alg_Volume_Lower_Bound (Alg_Params S)) (desired_area S)
        then Inl NormalizedAreaTooSmall
        else Inr (S\<lparr>Prior := SetVolumeLowerBound (Prior S) (Alg_Volume_Lower_Bound (Alg_Params S)),
               desired_area := map (\<lambda>a. a / foldl (+) (Fin 0) (desired_area S)) (desired_area S)\<rparr>,
               [normalize_warning]))"
      by (simp add: CheckParams_def Let_def CheckParams_sum_eq CheckParams_normalize_eq)
  next
    assume a: "int (length (desired_area S)) = NRegions S
      \<and> \<not> list_ex (\<lambda>a. a \<le> Alg_Volume_Lower_Bound (Alg_Params S)) (desired_area S)
      \<and> deq (foldl (+) (Fin 0) (desired_area S)) (Fin 1)"
    with ne have "desired_area S \<noteq> []" by simp
    with a show "CheckParams S = Inr (S\<lparr>Prior := SetVolumeLowerBound (Prior S) (Alg_Volume_Lower_Bound (Alg_Params S))\<rparr>, [])"
      by (simp add: CheckParams_def Let_def CheckParams_sum_eq)
  qed
qed

text \<open>
  C6 as stated fails: with two regions, no desired areas and the admissible lower bound
  3/4, nothing is filled in; an error is raised.
\<close>

theorem CheckParams_counterexample:
  "0 < NRegions (two_regions [] (Fin (3 / 4)))
   \<and> desired_area (two_regions [] (Fin (3 / 4))) = []
   \<and> CheckParams (two_regions [] (Fin (3 / 4))) = Inl VolumeLowerBoundTooLarge"
  by (simp add: CheckParams_def two_regions_def default_params_def Let_def of_int_double_def)

theorem CheckParams_behaviour_witness:
  "CheckParams (two_regions [] (Fin (1 / 100000)))
     = Inr ((two_regions [Fin (1 / 2), Fin (1 / 2)] (Fin (1 / 100000)))
              \<lparr>Prior := SetVolumeLowerBound uniform_density (Fin (1 / 100000))\<rparr>, [])
   \<and> CheckParams (two_regions [] (Fin (3 / 4))) = Inl VolumeLowerBoundTooLarge
   \<and> CheckParams (two_regions [Fin 1] (Fin (1 / 100000))) = Inl DesiredAreaSize
   \<and> CheckParams (two_regions [Fin (1 / 2), Fin (1 / 100000)] (Fin (1 / 100000))) = Inl DesiredAreaTooSmall
   \<and> CheckParams (two_regions [Fin (1 / 2), Fin (1 / 4)] (Fin (1 / 100000)))
     = Inr ((two_regions [Fin (2 / 3), Fin (1 / 3)] (Fin (1 / 100000)))
              \<lparr>Prior := SetVolumeLowerBound uniform_density (Fin (1 / 100000))\<rparr>, [normalize_warning])
   \<and> CheckParams (two_regions [Fin (1 / 2), Fin (1 / 2)] (Fin (1 / 100000)))
     = Inr ((two_regions [Fin (1 / 2), Fin (1 / 2)] (Fin (1 / 100000)))
              \<lparr>Prior := SetVolumeLowerBound uniform_density (Fin (1 / 100000))\<rparr>, [])"
  using CheckParams_behaviour [of "two_regions [] (Fin (1 / 100000))"]
    CheckParams_behaviour [of "two_regions [] (Fin (3 / 4))"]
    CheckParams_behaviour [of "two_regions [Fin 1] (Fin (1 / 100000))"]
    CheckParams_behaviour [of "two_regions [Fin (1 / 2), Fin (1 / 100000)] (Fin (1 / 100000))"]
    CheckParams_behaviour [of "two_regions [Fin (1 / 2), Fin (1 / 4)] (Fin (1 / 100000))"]
    CheckParams_behaviour [of "two_regions [Fin (1 / 2), Fin (1 / 2)] (Fin (1 / 100000))"]
  by (simp add: two_regions_def default_params_def Let_def of_int_double_def numeral_2_eq_2)

section \<open>Partition: the gradient step on the centers\<close>

lemma upto_0_0: "[0 .. (0::int)] = [0]"
  by (simp add: upto_rec1)

lemma small_triangle_centroid:
  "CalculateCentroid RC uniform_density small_triangle (Fin (1 / 100000)) = Inr (Point (Fin (1 / 4)) (Fin (1 / 4)))"
  by (simp add: CalculateCentroid_def Centroid_sums_def Centroid_ii_def uniform_density_def small_triangle_def
        GetGridInRegion_def GetNVertices_def NPoly_def upto_0_1 vec_put_def)

lemma sqrt_sixteenth: "sqrt (1 / 16) = 1 / 4"
  by (simp add: real_sqrt_divide)

text \<open>
  C2.  The header documents the result of \<^verbatim>\<open>GradientStepCenter(volumes)\<close> as the sum of the
  squares of the distances moved by the centers.  The code adds \<^verbatim>\<open>Errorxy.Norm()\<close>, the
  distance from the old center to the centroid, not squared and taken before the step
  is scaled by \<^verbatim>\<open>centers_step\<close>.  In the partition \<open>one_region\<close> the region has the volume the
  code computes for it (the lower bound), its center moves from \<open>(1/4, 1/2)\<close> to
  \<open>(1/4, 1/4)\<close>, the square of the distance moved is \<open>1/16\<close>, and the value returned is \<open>1/4\<close>.
\<close>

theorem GradientStepCenter_returns_norm:
  "CalculateWeightedArea (Fin (1 / 10000000)) (Prior one_region) small_triangle = Inr (Fin (1 / 100000))
   \<and> GradientStepCenter (Fin (1 / 10000000)) one_region [Fin (1 / 100000)]
       = Inr (one_region\<lparr>Centers := [Point (Fin (1 / 4)) (Fin (1 / 4))]\<rparr>, Fin (1 / 4))
   \<and> Distance (Point (Fin (1 / 4)) (Fin (1 / 2))) (Point (Fin (1 / 4)) (Fin (1 / 4)))
       * Distance (Point (Fin (1 / 4)) (Fin (1 / 2))) (Point (Fin (1 / 4)) (Fin (1 / 4))) = Fin (1 / 16)"
proof -
  have 1: "CalculateWeightedArea (Fin (1 / 10000000)) (Prior one_region) small_triangle = Inr (Fin (1 / 100000))"
    by (simp add: one_region_def CalculateWeightedArea_def small_triangle_sum)
       (simp add: uniform_density_def small_triangle_def GetNVertices_def NPoly_def)
  have 2: "GradientStepCenter (Fin (1 / 10000000)) one_region [Fin (1 / 100000)]
       = Inr (one_region\<lparr>Centers := [Point (Fin (1 / 4)) (Fin (1 / 4))]\<rparr>, Fin (1 / 4))"
    by (simp add: GradientStepCenter_def GradientStepCenter_ii_def one_region_def upto_0_0 vec_at_def vec_put_def
          small_triangle_centroid FlipDirection_def AddPoints_def Norm_def Mult_def default_params_def Let_def
          sqrt_sixteenth)
  have 3: "Distance (Point (Fin (1 / 4)) (Fin (1 / 2))) (Point (Fin (1 / 4)) (Fin (1 / 4)))
       * Distance (Point (Fin (1 / 4)) (Fin (1 / 2))) (Point (Fin (1 / 4)) (Fin (1 / 4))) = Fin (1 / 16)"
    by (simp add: Distance_Fin sqrt_sixteenth)
  from 1 2 3 show ?thesis by blast
qed

section \<open>Collinearity and the between test\<close>

lemma Distance_rdist: "Distance (Point (Fin a) (Fin b)) (Point (Fin c) (Fin d)) = Fin (rdist a b c d)"
  by (simp add: Distance_Fin rdist_def)

lemma rdist_nonneg [simp]: "0 \<le> rdist a b c d"
  by (simp add: rdist_def)

lemma rdist_sym: "rdist a b c d = rdist c d a b"
proof -
  have "(a - c) * (a - c) + (b - d) * (b - d) = (c - a) * (c - a) + (d - b) * (d - b)"
    by (simp add: algebra_simps)
  then show ?thesis by (simp only: rdist_def)
qed

lemma rdist_zero_iff: "rdist a b c d = 0 \<longleftrightarrow> a = c \<and> b = d"
  by (simp add: rdist_def sum_squares_eq_zero_iff)

lemma rdist_scale: "0 \<le> k \<Longrightarrow> rdist (k * a) (k * b) (k * c) (k * d) = k * rdist a b c d"
proof -
  assume k: "0 \<le> k"
  have "(k * a - k * c) * (k * a - k * c) + (k * b - k * d) * (k * b - k * d)
      = (k * k) * ((a - c) * (a - c) + (b - d) * (b - d))"
    by (simp add: algebra_simps)
  then have "rdist (k * a) (k * b) (k * c) (k * d) = sqrt ((k * k) * ((a - c) * (a - c) + (b - d) * (b - d)))"
    by (simp only: rdist_def)
  also have "\<dots> = sqrt (k * k) * sqrt ((a - c) * (a - c) + (b - d) * (b - d))"
    by (rule real_sqrt_mult)
  also have "\<dots> = \<bar>k\<bar> * sqrt ((a - c) * (a - c) + (b - d) * (b - d))"
    by (simp only: real_sqrt_abs2)
  finally show ?thesis using k by (simp add: rdist_def)
qed

lemma rdist_ge_dy: "\<bar>b - d\<bar> \<le> rdist a b c d"
proof -
  have "\<bar>b - d\<bar> = sqrt ((b - d) * (b - d))" by simp
  also have "\<dots> \<le> sqrt ((a - c) * (a - c) + (b - d) * (b - d))"
    by (rule real_sqrt_le_mono) simp
  finally show ?thesis by (simp add: rdist_def)
qed

lemma rperp_nonneg: "0 \<le> rperp rc a1 b1 a2 b2 a3 b3"
  by (simp add: rperp_def)

lemma rmaxd_nonneg: "0 \<le> rmaxd a1 b1 a2 b2 a3 b3"
  by (simp add: rmaxd_def max_def)

lemma PerpDistance_Fin:
  assumes "0 < rc"
  shows "PerpDistanceToLine (Fin rc) (Point (Fin a1) (Fin b1)) (Point (Fin a2) (Fin b2)) (Point (Fin a3) (Fin b3))
         = Fin (rperp rc a1 b1 a2 b2 a3 b3)"
proof (cases "\<bar>b2 - b1\<bar> < rc \<or> \<bar>a2 - a1\<bar> < rc")
  case True
  then show ?thesis by (auto simp: PerpDistanceToLine_def rperp_def)
next
  case False
  then have "rc \<le> \<bar>b1 - b2\<bar>" by (simp add: abs_minus_commute)
  with assms rdist_ge_dy [of b1 b2 a1 a2] have "rdist a1 b1 a2 b2 \<noteq> 0" by linarith
  with False show ?thesis
    by (simp add: PerpDistanceToLine_def rperp_def Distance_rdist)
qed

lemma div_less_Fin:
  assumes "0 \<le> p" "0 \<le> m"
  shows "(Fin p / Fin m < Fin rc) = (m \<noteq> 0 \<and> p / m < rc)"
  using assms by (cases "m = 0") auto

lemma if_less_Fin: "(if m < t then Fin t else Fin m) = Fin (max m t)"
  by (simp add: max_def)

lemma AreCollinear_Fin:
  assumes "0 < rc"
  shows "AreCollinear (Fin rc) (Point (Fin a1) (Fin b1)) (Point (Fin a2) (Fin b2)) (Point (Fin a3) (Fin b3))
         = (rmaxd a1 b1 a2 b2 a3 b3 \<noteq> 0
            \<and> rperp rc a1 b1 a2 b2 a3 b3 / rmaxd a1 b1 a2 b2 a3 b3 < rc)"
proof -
  have "AreCollinear (Fin rc) (Point (Fin a1) (Fin b1)) (Point (Fin a2) (Fin b2)) (Point (Fin a3) (Fin b3))
      = (Fin (rperp rc a1 b1 a2 b2 a3 b3) / Fin (rmaxd a1 b1 a2 b2 a3 b3) < Fin rc)"
    by (simp add: AreCollinear_def Distance_rdist PerpDistance_Fin [OF assms] Let_def rmaxd_def if_less_Fin
          del: divide_double.simps max_less_iff_conj)
  then show ?thesis
    by (simp only: div_less_Fin [OF rperp_nonneg rmaxd_nonneg])
qed

lemma rdist_div_not_neg [simp]: "\<not> rdist a b c d / rdist e f g h < 0"
proof -
  have "0 \<le> rdist a b c d / rdist e f g h" by simp
  then show ?thesis by linarith
qed

lemma rmaxd_zero: "rmaxd a1 b1 a2 b2 a3 b3 = 0 \<Longrightarrow> rdist a1 b1 a2 b2 = 0 \<and> rdist a1 b1 a3 b3 = 0"
proof -
  assume "rmaxd a1 b1 a2 b2 a3 b3 = 0"
  moreover have "rdist a1 b1 a2 b2 \<le> rmaxd a1 b1 a2 b2 a3 b3" "rdist a1 b1 a3 b3 \<le> rmaxd a1 b1 a2 b2 a3 b3"
    by (simp_all add: rmaxd_def)
  ultimately show ?thesis
    using rdist_nonneg [of a1 b1 a2 b2] rdist_nonneg [of a1 b1 a3 b3] by linarith
qed

lemma AreBetween_Fin:
  assumes "0 < rc"
  shows "AreBetween (Fin rc) (Point (Fin a1) (Fin b1)) (Point (Fin a2) (Fin b2)) (Point (Fin a3) (Fin b3))
         = (rmaxd a1 b1 a2 b2 a3 b3 \<noteq> 0
            \<and> rperp rc a1 b1 a2 b2 a3 b3 / rmaxd a1 b1 a2 b2 a3 b3 < rc
            \<and> rdist a2 b2 a1 b1 \<noteq> 0
            \<and> rdist a3 b3 a1 b1 / rdist a2 b2 a1 b1 \<le> 1
            \<and> ((a3 - a1 \<le> 0 \<and> a2 - a1 \<le> 0) \<or> (a3 - a1 \<ge> 0 \<and> a2 - a1 \<ge> 0)))"
proof (cases "rdist a2 b2 a1 b1 = 0")
  case z: True
  show ?thesis
  proof (cases "rdist a3 b3 a1 b1 = 0")
    case True
    with z have "a1 = a2" "b1 = b2" "a1 = a3" "b1 = b3" by (simp_all add: rdist_zero_iff)
    then have "rmaxd a1 b1 a2 b2 a3 b3 = 0" by (simp add: rmaxd_def rdist_def)
    with z show ?thesis by (simp add: AreBetween_def AreCollinear_Fin [OF assms])
  next
    case False
    then have "0 < rdist a3 b3 a1 b1" using rdist_nonneg [of a3 b3 a1 b1] by linarith
    with z show ?thesis by (simp add: AreBetween_def Distance_rdist Let_def)
  qed
next
  case False
  from False show ?thesis
    by (auto simp add: AreBetween_def AreCollinear_Fin [OF assms] Distance_rdist Let_def not_less)
qed

lemma Mult_Fin [simp]: "Mult (Fin k) (Point (Fin a) (Fin b)) = Point (Fin (k * a)) (Fin (k * b))"
  by (simp add: Mult_def)

lemma rmaxd_scale:
  assumes "0 \<le> k"
  shows "rmaxd (k * a1) (k * b1) (k * a2) (k * b2) (k * a3) (k * b3) = k * rmaxd a1 b1 a2 b2 a3 b3"
  using assms by (simp add: rmaxd_def rdist_scale max_mult_distrib_left)

lemma rperp_scale:
  assumes k: "0 < k"
    and hy: "(\<bar>b2 - b1\<bar> < rc) = (\<bar>k * b2 - k * b1\<bar> < rc)"
    and hx: "(\<bar>a2 - a1\<bar> < rc) = (\<bar>k * a2 - k * a1\<bar> < rc)"
  shows "rperp rc (k * a1) (k * b1) (k * a2) (k * b2) (k * a3) (k * b3) = k * rperp rc a1 b1 a2 b2 a3 b3"
proof -
  have lin: "\<And>u v. \<bar>k * u - k * v\<bar> = k * \<bar>u - v\<bar>"
  proof -
    fix u v :: real
    have "k * u - k * v = k * (u - v)" by (simp add: algebra_simps)
    then show "\<bar>k * u - k * v\<bar> = k * \<bar>u - v\<bar>" using k by (simp add: abs_mult)
  qed
  have num: "\<bar>(k * b2 - k * b1) * (k * a3) - (k * a2 - k * a1) * (k * b3) + k * a2 * (k * b1) - k * b2 * (k * a1)\<bar>
      = k * k * \<bar>(b2 - b1) * a3 - (a2 - a1) * b3 + a2 * b1 - b2 * a1\<bar>"
  proof -
    have "(k * b2 - k * b1) * (k * a3) - (k * a2 - k * a1) * (k * b3) + k * a2 * (k * b1) - k * b2 * (k * a1)
        = (k * k) * ((b2 - b1) * a3 - (a2 - a1) * b3 + a2 * b1 - b2 * a1)"
      by (simp add: algebra_simps)
    then show ?thesis using k by (simp add: abs_mult)
  qed
  have den: "rdist (k * a1) (k * b1) (k * a2) (k * b2) = k * rdist a1 b1 a2 b2"
    using k by (simp add: rdist_scale)
  have gen: "k * k * n / (k * d) = k * (n / d)" for n d :: real
    using k by simp
  show ?thesis
    unfolding rperp_def hy hx lin num den gen
    by simp
qed

lemma AreCollinear_scale:
  assumes rc: "0 < rc" and k: "0 < k"
    and hy: "(\<bar>b2 - b1\<bar> < rc) = (\<bar>k * b2 - k * b1\<bar> < rc)"
    and hx: "(\<bar>a2 - a1\<bar> < rc) = (\<bar>k * a2 - k * a1\<bar> < rc)"
  shows "AreCollinear (Fin rc) (Point (Fin (k * a1)) (Fin (k * b1))) (Point (Fin (k * a2)) (Fin (k * b2)))
            (Point (Fin (k * a3)) (Fin (k * b3)))
          = AreCollinear (Fin rc) (Point (Fin a1) (Fin b1)) (Point (Fin a2) (Fin b2)) (Point (Fin a3) (Fin b3))"
proof -
  have k0: "0 \<le> k" using k by simp
  note p = rperp_scale [OF k hy hx, of a3 b3]
  note m = rmaxd_scale [OF k0, of a1 b1 a2 b2 a3 b3]
  have q: "k * x / (k * y) = x / y" for x y :: real using k by simp
  have z: "(k * y = 0) = (y = 0)" for y :: real using k by simp
  show ?thesis
    unfolding AreCollinear_Fin [OF rc] p m q z by (rule refl)
qed

lemma AreBetween_scale:
  assumes rc: "0 < rc" and k: "0 < k"
    and hy: "(\<bar>b2 - b1\<bar> < rc) = (\<bar>k * b2 - k * b1\<bar> < rc)"
    and hx: "(\<bar>a2 - a1\<bar> < rc) = (\<bar>k * a2 - k * a1\<bar> < rc)"
  shows "AreBetween (Fin rc) (Point (Fin (k * a1)) (Fin (k * b1))) (Point (Fin (k * a2)) (Fin (k * b2)))
            (Point (Fin (k * a3)) (Fin (k * b3)))
          = AreBetween (Fin rc) (Point (Fin a1) (Fin b1)) (Point (Fin a2) (Fin b2)) (Point (Fin a3) (Fin b3))"
proof -
  have k0: "0 \<le> k" using k by simp
  note p = rperp_scale [OF k hy hx, of a3 b3]
  note m = rmaxd_scale [OF k0, of a1 b1 a2 b2 a3 b3]
  note r1 = rdist_scale [OF k0, of a2 b2 a1 b1]
  note r2 = rdist_scale [OF k0, of a3 b3 a1 b1]
  have q: "k * x / (k * y) = x / y" for x y :: real using k by simp
  have z: "(k * y = 0) = (y = 0)" for y :: real using k by simp
  have s: "(k * x - k * y \<le> 0) = (x - y \<le> 0)" "(0 \<le> k * x - k * y) = (0 \<le> x - y)" for x y :: real
    using k by (simp_all add: mult_le_cancel_left_pos)
  show ?thesis
    unfolding AreBetween_Fin [OF rc] by (simp only: p m r1 r2 q z s)
qed

lemma abs_not_neg: "\<not> \<bar>a :: double\<bar> < Fin 0"
  by (cases a) simp_all

lemma dsqrt_not_neg: "\<not> dsqrt a < Fin 0"
  by (cases a) simp_all

lemma div_not_neg: "\<not> a < Fin 0 \<Longrightarrow> \<not> b < Fin 0 \<Longrightarrow> \<not> a / b < Fin (0::real)"
  by (cases a; cases b) (auto simp: not_less)

lemma not_neg_nonpos: "\<not> a < Fin 0 \<Longrightarrow> rc \<le> 0 \<Longrightarrow> \<not> a < Fin rc"
  by (cases a) simp_all

lemma Distance_not_neg: "\<not> Distance p q < Fin 0"
  by (simp add: Distance_def dsqrt_not_neg)

lemma PerpDistance_not_neg: "\<not> PerpDistanceToLine RC Test1 Test2 Test3 < Fin 0"
  by (simp add: PerpDistanceToLine_def abs_not_neg div_not_neg Distance_not_neg)

lemma AreCollinear_nonpos:
  assumes "rc \<le> 0"
  shows "\<not> AreCollinear (Fin rc) Test1 Test2 Test3"
proof -
  have "\<not> PerpDistanceToLine (Fin rc) Test1 Test2 Test3 / m < Fin rc" if "\<not> m < Fin 0" for m
  proof (rule not_neg_nonpos)
    show "\<not> PerpDistanceToLine (Fin rc) Test1 Test2 Test3 / m < Fin 0"
      using PerpDistance_not_neg that by (rule div_not_neg)
    show "rc \<le> 0" by (rule assms)
  qed
  then show ?thesis
    by (simp add: AreCollinear_def Let_def Distance_not_neg)
qed

lemma AreCollinear_zero: "\<not> AreCollinear (Fin 0) Test1 Test2 Test3"
  by (rule AreCollinear_nonpos) simp

lemma AreBetween_nonpos: "rc \<le> 0 \<Longrightarrow> \<not> AreBetween (Fin rc) Test1 Test2 Test3"
  by (simp add: AreBetween_def AreCollinear_nonpos)

lemma power_of_two_pos: "0 < power_of_two up n"
  by (simp add: power_of_two_def)


lemma rdist_val: "0 \<le> r \<Longrightarrow> (a - c) * (a - c) + (b - d) * (b - d) = r * r \<Longrightarrow> rdist a b c d = r"
  by (simp add: rdist_def)

lemma rdist_vals:
  "rdist 0 0 3 4 = 5" "rdist 3 4 0 0 = 5" "rdist 3 4 0 4 = 3" "rdist 0 0 0 4 = 4" "rdist 0 4 0 0 = 4"
  "rdist 0 0 (3 / 32) (1 / 8) = 5 / 32" "rdist (3 / 32) (1 / 8) 0 0 = 5 / 32"
  "rdist (3 / 32) (1 / 8) 0 (1 / 8) = 3 / 32" "rdist 0 0 0 (1 / 8) = 1 / 8" "rdist 0 (1 / 8) 0 0 = 1 / 8"
  "rdist 0 (1 / 8) 0 (9 / 64) = 1 / 64" "rdist 0 0 0 (9 / 64) = 9 / 64" "rdist 0 (9 / 64) 0 0 = 9 / 64"
  "rdist 3 4 (9 / 10) (- (27 / 40)) = 41 / 8" "rdist (9 / 10) (- (27 / 40)) 3 4 = 41 / 8"
  "rdist 0 0 (9 / 10) (- (27 / 40)) = 9 / 8" "rdist (9 / 10) (- (27 / 40)) 0 0 = 9 / 8"
  by (rule rdist_val; simp)+

lemma on_segment:
  "AreCollinear (Fin (1 / 4)) (Point (Fin 0) (Fin 0)) (Point (Fin 3) (Fin 4)) (Point (Fin (3 / 2)) (Fin 2))"
  "AreBetween (Fin (1 / 4)) (Point (Fin 0) (Fin 0)) (Point (Fin 3) (Fin 4)) (Point (Fin (3 / 2)) (Fin 2))"
proof -
  have rc: "(0::real) < 1 / 4" by simp
  have d: "rdist 0 0 3 4 = 5" "rdist 3 4 0 0 = 5" "rdist 3 4 (3 / 2) 2 = 5 / 2" "rdist 0 0 (3 / 2) 2 = 5 / 2"
    "rdist (3 / 2) 2 0 0 = 5 / 2"
    by (rule rdist_val; simp)+
  show "AreCollinear (Fin (1 / 4)) (Point (Fin 0) (Fin 0)) (Point (Fin 3) (Fin 4)) (Point (Fin (3 / 2)) (Fin 2))"
    by (simp add: AreCollinear_Fin [OF rc] rperp_def rmaxd_def d)
  show "AreBetween (Fin (1 / 4)) (Point (Fin 0) (Fin 0)) (Point (Fin 3) (Fin 4)) (Point (Fin (3 / 2)) (Fin 2))"
    by (simp add: AreBetween_Fin [OF rc] rperp_def rmaxd_def d)
qed




section \<open>Point in polygon\<close>

lemma not_le_below: "(t::double) < m \<Longrightarrow> m \<le> v \<Longrightarrow> \<not> v \<le> t"
  by (cases t; cases m; cases v) simp_all

lemma not_less_below: "(t::double) < m \<Longrightarrow> m \<le> v \<Longrightarrow> \<not> v < t"
  by (cases t; cases m; cases v) simp_all

lemma not_le_above: "(v::double) \<le> m \<Longrightarrow> m < t \<Longrightarrow> \<not> t \<le> v"
  by (cases t; cases m; cases v) simp_all

lemma loop_no_toggle:
  assumes "(\<forall>v \<in> set (T1 # vs). \<not> xc v \<le> xc Test) \<or> (\<forall>v \<in> set (T1 # vs). \<not> yc v < yc Test)
           \<or> (\<forall>v \<in> set (T1 # vs). \<not> yc Test \<le> yc v)"
    and "\<not> list_ex (\<lambda>(Test_1, Test_2). AreBetween RC Test_1 Test_2 Test) (edges_from T1 vs)"
  shows "pnpoly_loop RC Test T1 vs val = val"
  using assms
proof (induction vs arbitrary: T1)
  case Nil
  then show ?case by simp
next
  case (Cons T2 rest)
  from Cons.prems(2) have nb: "\<not> AreBetween RC T1 T2 Test"
    and nr: "\<not> list_ex (\<lambda>(Test_1, Test_2). AreBetween RC Test_1 Test_2 Test) (edges_from T2 rest)"
    by simp_all
  from Cons.prems(1) have c: "(((yc T1 < yc Test \<and> yc Test \<le> yc T2) \<or> (yc Test \<le> yc T1 \<and> yc T2 < yc Test))
               \<and> (xc T1 \<le> xc Test \<or> xc T2 \<le> xc Test)) = False"
    by auto
  from Cons.prems(1) have r: "(\<forall>v \<in> set (T2 # rest). \<not> xc v \<le> xc Test)
      \<or> (\<forall>v \<in> set (T2 # rest). \<not> yc v < yc Test) \<or> (\<forall>v \<in> set (T2 # rest). \<not> yc Test \<le> yc v)"
    by auto
  have "pnpoly_loop RC Test T1 (T2 # rest) val = pnpoly_loop RC Test T2 rest val"
    unfolding pnpoly_loop.simps c using nb by (simp add: Let_def)
  also have "\<dots> = val" using r nr by (rule Cons.IH)
  finally show ?case .
qed

lemma pnpoly_not_right:
  assumes box: "\<forall>v \<in> set vs. mnx \<le> xc v \<and> xc v \<le> mxx \<and> mny \<le> yc v \<and> yc v \<le> mxy"
    and ne: "vs \<noteq> []"
    and out: "xc Test < mnx \<or> yc Test < mny \<or> yc Test > mxy"
  shows "pnpoly_loop RC Test (last vs) vs False
         = list_ex (\<lambda>(Test_1, Test_2). AreBetween RC Test_1 Test_2 Test) (edges_from (last vs) vs)"
proof (cases "list_ex (\<lambda>(Test_1, Test_2). AreBetween RC Test_1 Test_2 Test) (edges_from (last vs) vs)")
  case True
  then show ?thesis by (simp add: loop_between)
next
  case nb: False
  have mem: "set (last vs # vs) = set vs" using ne by auto
  have "(\<forall>v \<in> set vs. \<not> xc v \<le> xc Test) \<or> (\<forall>v \<in> set vs. \<not> yc v < yc Test)
           \<or> (\<forall>v \<in> set vs. \<not> yc Test \<le> yc v)"
    using out
  proof (elim disjE)
    assume o: "xc Test < mnx"
    have "\<forall>v \<in> set vs. \<not> xc v \<le> xc Test"
    proof
      fix v assume "v \<in> set vs"
      with box have "mnx \<le> xc v" by blast
      with o show "\<not> xc v \<le> xc Test" by (rule not_le_below)
    qed
    then show ?thesis by blast
  next
    assume o: "yc Test < mny"
    have "\<forall>v \<in> set vs. \<not> yc v < yc Test"
    proof
      fix v assume "v \<in> set vs"
      with box have "mny \<le> yc v" by blast
      with o show "\<not> yc v < yc Test" by (rule not_less_below)
    qed
    then show ?thesis by blast
  next
    assume o: "yc Test > mxy"
    have "\<forall>v \<in> set vs. \<not> yc Test \<le> yc v"
    proof
      fix v assume "v \<in> set vs"
      with box have "yc v \<le> mxy" by blast
      from this o show "\<not> yc Test \<le> yc v" by (rule not_le_above)
    qed
    then show ?thesis by blast
  qed
  then have "pnpoly_loop RC Test (last vs) vs False = False"
    using nb unfolding mem [symmetric] by (rule loop_no_toggle)
  with nb show ?thesis by simp
qed

lemma finite_nan_free: "list_all finite_point vs \<Longrightarrow> list_all nan_free vs"
  by (induction vs) (auto simp: finite_point_def nan_free_def finite_not_nan)


lemma on_some_edge_zero: "\<not> on_some_edge (Fin 0) P Test"
  by (simp add: on_some_edge_def list_ex_iff AreBetween_def AreCollinear_zero)

lemma unit_square_ctor:
  "Poly_ctor [Point (Fin 0) (Fin 0), Point (Fin 1) (Fin 0), Point (Fin 1) (Fin 1), Point (Fin 0) (Fin 1)]
   = Inr unit_square"
  by (simp add: Poly_ctor_def InitializePoly_def INFINITY_def NPoly_def Let_def IsEqual_def unit_square_def)

lemma near_left_edge:
  "AreBetween (Fin (1 / 10000000)) (Point (Fin 0) (Fin 1)) (Point (Fin 0) (Fin 0))
     (Point (Fin (- (1 / 100000000))) (Fin (1 / 2)))"
  by (simp add: AreBetween_def AreCollinear_def PerpDistanceToLine_def Distance_def Let_def)

lemma corner_on_edge:
  "AreBetween (Fin (1 / 10000000)) (Point (Fin 1) (Fin 0)) (Point (Fin 1) (Fin 1)) (Point (Fin 1) (Fin 1))"
  by (simp add: AreBetween_def AreCollinear_def PerpDistanceToLine_def Distance_def Let_def)



section \<open>Partition: the gradient step on the weights\<close>

lemma sq_diff_sym: "(a - b) * (a - b) = (b - a) * (b - (a::double))"
proof (cases a; cases b)
  fix x y assume "a = Fin x" "b = Fin y"
  moreover have "(x - y) * (x - y) = (y - x) * (y - x)" by (simp add: algebra_simps)
  ultimately show ?thesis by simp
qed (simp_all add: minus_double_def)

lemma Distance_sym: "Distance p q = Distance q p"
  by (simp add: Distance_def sq_diff_sym [of "xc p"] sq_diff_sym [of "yc p"])

lemma neg_diff: "- (a - b) = b - (a::double)"
  by (cases a; cases b) (simp_all add: minus_double_def)

lemma neg_times: "(- t) * h = - (h * (t::double))"
  by (cases t; cases h) (auto simp add: mult.commute)

lemma plus_neg_times: "w + (- t) * h = w - h * (t::double)"
  by (simp add: neg_times minus_double_def)

lemma add_zero_double: "t + Fin 0 = (t::double)"
  by (cases t) simp_all

lemma ratio_diff_sym: "- ratio_diff S volumes i j = ratio_diff S volumes j i"
  by (simp add: ratio_diff_def neg_diff)

lemma edge_integral_sym: "edge_integral S SE i j = edge_integral S SE j i"
  by (simp add: edge_integral_def min.commute max.commute)

lemma env_edge:
  assumes ok: "weights_input_ok S volumes SE" and ij: "0 \<le> i" "i < j" "j < NRegions S"
  shows "ebind (graph_at SE i j) (\<lambda>(e0, e1).
           ebind (if \<not> isinf (xc e1) then LineIntegral (Prior S) (line_int_step (Alg_Params S)) e0 e1
                  else Inr (Fin 0)) K)
         = K (edge_integral S SE i j)"
proof -
  from ok ij obtain e where e: "graph_at SE i j = Inr e"
    and li: "\<not> isinf (xc (snd e)) \<Longrightarrow>
               \<exists>v. LineIntegral (Prior S) (line_int_step (Alg_Params S)) (fst e) (snd e) = Inr v"
    unfolding weights_input_ok_def by blast
  have mm: "min i j = i" "max i j = j" using ij by simp_all
  show ?thesis
  proof (cases "isinf (xc (snd e))")
    case True
    then show ?thesis
      by (cases e) (simp add: e edge_integral_def mm)
  next
    case False
    with li obtain v where "LineIntegral (Prior S) (line_int_step (Alg_Params S)) (fst e) (snd e) = Inr v"
      by blast
    with False show ?thesis
      by (cases e) (simp add: e edge_integral_def mm)
  qed
qed

lemma upper_body:
  assumes ok: "weights_input_ok S volumes SE"
    and ij: "0 \<le> ii" "ii < jj" "jj < NRegions S"
    and len: "int (length totals) = NRegions S"
  shows "GradientStepWeights_upper S volumes SE ii jj (totals, integrals, dst, InvAreaDist)
       = Inr (totals[nat ii := totals ! nat ii + weight_term S volumes SE ii jj],
              integrals((ii, jj) \<mapsto> edge_integral S SE ii jj, (jj, ii) \<mapsto> edge_integral S SE ii jj),
              dst((ii, jj) \<mapsto> Distance (Centers S ! nat ii) (Centers S ! nat jj),
                  (jj, ii) \<mapsto> Distance (Centers S ! nat ii) (Centers S ! nat jj)),
              InvAreaDist((ii, jj) \<mapsto> ratio_diff S volumes ii jj, (jj, ii) \<mapsto> - ratio_diff S volumes ii jj))"
proof -
  have i: "0 \<le> ii" "ii < NRegions S" and j: "0 \<le> jj" "jj < NRegions S" using ij by simp_all
  from ok have l: "int (length (Centers S)) = NRegions S" "int (length (desired_area S)) = NRegions S"
    "int (length volumes) = NRegions S"
    by (simp_all add: weights_input_ok_def)
  have rd: "vec_at (Centers S) ii = Inr (Centers S ! nat ii)" "vec_at (Centers S) jj = Inr (Centers S ! nat jj)"
    "vec_at (desired_area S) ii = Inr (desired_area S ! nat ii)"
    "vec_at (desired_area S) jj = Inr (desired_area S ! nat jj)"
    "vec_at volumes ii = Inr (volumes ! nat ii)" "vec_at volumes jj = Inr (volumes ! nat jj)"
    "vec_at totals ii = Inr (totals ! nat ii)"
    using i j l len by (simp_all add: vec_at_def)
  have tw: "vec_put totals ii x = Inr (totals[nat ii := x])" for x using i len by (simp add: vec_put_def)
  show ?thesis
    unfolding GradientStepWeights_upper_def
    by (simp add: rd Let_def env_edge [OF ok ij] tw weight_term_def weight_factor_def ratio_diff_def
          del: divide_double.simps)
qed

lemma lower_body:
  assumes i: "0 \<le> ii" "ii < NRegions S"
    and len: "int (length totals) = NRegions S"
    and cI: "integrals (ii, jj) = Some (edge_integral S SE ii jj)"
    and cD: "dst (ii, jj) = Some (Distance (Centers S ! nat ii) (Centers S ! nat jj))"
    and cA: "InvAreaDist (ii, jj) = Some (ratio_diff S volumes ii jj)"
  shows "GradientStepWeights_lower ii jj (totals, integrals, dst, InvAreaDist)
       = Inr (totals[nat ii := totals ! nat ii + weight_term S volumes SE ii jj], integrals, dst, InvAreaDist)"
proof -
  have tr: "vec_at totals ii = Inr (totals ! nat ii)" using i len by (simp add: vec_at_def)
  have tw: "vec_put totals ii x = Inr (totals[nat ii := x])" for x using i len by (simp add: vec_put_def)
  show ?thesis
    unfolding GradientStepWeights_lower_def
    by (simp add: tr tw arr_at_def cI cD cA weight_term_def weight_factor_def del: divide_double.simps)
qed

lemma cells_okD:
  assumes "cells_ok S volumes SE k j (A, B, C)"
    and "0 \<le> a" "a < NRegions S" "0 \<le> b" "b < NRegions S" "a \<noteq> b"
    and "min a b < k \<or> (min a b = k \<and> max a b < j)"
  shows "A (a, b) = Some (edge_integral S SE a b)"
    and "B (a, b) = Some (Distance (Centers S ! nat a) (Centers S ! nat b))"
    and "C (a, b) = Some (ratio_diff S volumes a b)"
proof -
  from assms(1) have "\<forall>a b. 0 \<le> a \<and> a < NRegions S \<and> 0 \<le> b \<and> b < NRegions S \<and> a \<noteq> b
            \<and> (min a b < k \<or> (min a b = k \<and> max a b < j)) \<longrightarrow>
          A (a, b) = Some (edge_integral S SE a b)
        \<and> B (a, b) = Some (Distance (Centers S ! nat a) (Centers S ! nat b))
        \<and> C (a, b) = Some (ratio_diff S volumes a b)"
    unfolding cells_ok_def prod.case .
  then have *: "0 \<le> a \<and> a < NRegions S \<and> 0 \<le> b \<and> b < NRegions S \<and> a \<noteq> b
            \<and> (min a b < k \<or> (min a b = k \<and> max a b < j)) \<longrightarrow>
          A (a, b) = Some (edge_integral S SE a b)
        \<and> B (a, b) = Some (Distance (Centers S ! nat a) (Centers S ! nat b))
        \<and> C (a, b) = Some (ratio_diff S volumes a b)"
    by (elim allE)
  have c: "0 \<le> a \<and> a < NRegions S \<and> 0 \<le> b \<and> b < NRegions S \<and> a \<noteq> b
            \<and> (min a b < k \<or> (min a b = k \<and> max a b < j))"
    using assms(2-) by (intro conjI)
  note r = mp [OF * c]
  show "A (a, b) = Some (edge_integral S SE a b)" using r by (elim conjE)
  show "B (a, b) = Some (Distance (Centers S ! nat a) (Centers S ! nat b))" using r by (elim conjE)
  show "C (a, b) = Some (ratio_diff S volumes a b)" using r by (elim conjE)
qed

lemma upd2_other: "p \<noteq> k1 \<Longrightarrow> p \<noteq> k2 \<Longrightarrow> (f(k1 \<mapsto> x, k2 \<mapsto> y)) p = f p"
  by simp

lemma cells_ok_step:
  assumes c: "cells_ok S volumes SE ii jj (integrals, dst, InvAreaDist)"
    and ij: "ii < jj"
  shows "cells_ok S volumes SE ii (jj + 1)
           (integrals((ii, jj) \<mapsto> edge_integral S SE ii jj, (jj, ii) \<mapsto> edge_integral S SE ii jj),
            dst((ii, jj) \<mapsto> Distance (Centers S ! nat ii) (Centers S ! nat jj),
                (jj, ii) \<mapsto> Distance (Centers S ! nat ii) (Centers S ! nat jj)),
            InvAreaDist((ii, jj) \<mapsto> ratio_diff S volumes ii jj, (jj, ii) \<mapsto> - ratio_diff S volumes ii jj))"
  unfolding cells_ok_def prod.case
proof (intro allI impI)
  fix a b
  assume h: "0 \<le> a \<and> a < NRegions S \<and> 0 \<le> b \<and> b < NRegions S \<and> a \<noteq> b
            \<and> (min a b < ii \<or> (min a b = ii \<and> max a b < jj + 1))"
  consider (new1) "a = ii" "b = jj" | (new2) "a = jj" "b = ii" | (old) "(a, b) \<noteq> (ii, jj)" "(a, b) \<noteq> (jj, ii)"
    by auto
  then show "(integrals((ii, jj) \<mapsto> edge_integral S SE ii jj, (jj, ii) \<mapsto> edge_integral S SE ii jj)) (a, b)
               = Some (edge_integral S SE a b)
        \<and> (dst((ii, jj) \<mapsto> Distance (Centers S ! nat ii) (Centers S ! nat jj),
                (jj, ii) \<mapsto> Distance (Centers S ! nat ii) (Centers S ! nat jj))) (a, b)
               = Some (Distance (Centers S ! nat a) (Centers S ! nat b))
        \<and> (InvAreaDist((ii, jj) \<mapsto> ratio_diff S volumes ii jj, (jj, ii) \<mapsto> - ratio_diff S volumes ii jj)) (a, b)
               = Some (ratio_diff S volumes a b)"
  proof cases
    case new1
    with ij show ?thesis by simp
  next
    case new2
    with ij show ?thesis
      by (simp add: edge_integral_sym [of S SE jj ii] Distance_sym [of "Centers S ! nat jj"] ratio_diff_sym)
  next
    case old
    with h have m: "min a b < ii \<or> (min a b = ii \<and> max a b < jj)"
      by (auto simp: min_def max_def split: if_splits)
    from h have r: "0 \<le> a" "a < NRegions S" "0 \<le> b" "b < NRegions S" "a \<noteq> b" by simp_all
    note k = cells_okD [OF c r m]
    from old have n: "(a, b) \<noteq> (ii, jj)" "(a, b) \<noteq> (jj, ii)" by blast+
    show ?thesis
      unfolding upd2_other [OF n] using k by (intro conjI)
  qed
qed

lemma upper_loop:
  assumes ok: "weights_input_ok S volumes SE"
    and i: "0 \<le> ii" "ii < NRegions S"
    and len: "int (length totals) = NRegions S" and T: "totals ! nat ii = Fin 0"
    and c: "cells_ok S volumes SE ii (ii + 1) M"
  shows "\<exists>totals' M'.
           for_loop [ii + 1 .. NRegions S - 1] (GradientStepWeights_upper S volumes SE ii) (totals, M)
             = Inr (totals', M')
           \<and> int (length totals') = NRegions S
           \<and> totals' ! nat ii = foldl (+) (Fin 0) (map (weight_term S volumes SE ii) [ii + 1 .. NRegions S - 1])
           \<and> cells_ok S volumes SE ii (NRegions S) M'"
proof -
  let ?I = "\<lambda>j (t, M'). int (length t) = NRegions S
              \<and> t ! nat ii = foldl (+) (Fin 0) (map (weight_term S volumes SE ii) [ii + 1 .. j - 1])
              \<and> cells_ok S volumes SE ii j M'"
  have "\<exists>s'. for_loop [ii + 1 .. NRegions S - 1] (GradientStepWeights_upper S volumes SE ii) (totals, M) = Inr s'
          \<and> ?I (NRegions S - 1 + 1) s'"
  proof (rule for_loop_range [where I = ?I])
    show "ii + 1 \<le> NRegions S - 1 + 1" using i by simp
    show "?I (ii + 1) (totals, M)" using len T c by simp
  next
    fix jj and s :: "double list \<times> Mult_Array \<times> Mult_Array \<times> Mult_Array"
    assume jj: "ii + 1 \<le> jj" "jj \<le> NRegions S - 1" and I: "?I jj s"
    obtain t A B C where s: "s = (t, A, B, C)" by (cases s) auto
    from I s have l: "int (length t) = NRegions S"
      and tv: "t ! nat ii = foldl (+) (Fin 0) (map (weight_term S volumes SE ii) [ii + 1 .. jj - 1])"
      and ck: "cells_ok S volumes SE ii jj (A, B, C)"
      by simp_all
    have ij: "0 \<le> ii" "ii < jj" "jj < NRegions S" using i jj by simp_all
    note b = upper_body [OF ok ij l, of A B C]
    have ni: "nat ii < length t" using i l by simp
    have u: "[ii + 1 .. jj] = [ii + 1 .. jj - 1] @ [jj]" using jj(1) by (simp add: upto_rec2)
    have "?I (jj + 1) (t[nat ii := t ! nat ii + weight_term S volumes SE ii jj],
              A((ii, jj) \<mapsto> edge_integral S SE ii jj, (jj, ii) \<mapsto> edge_integral S SE ii jj),
              B((ii, jj) \<mapsto> Distance (Centers S ! nat ii) (Centers S ! nat jj),
                (jj, ii) \<mapsto> Distance (Centers S ! nat ii) (Centers S ! nat jj)),
              C((ii, jj) \<mapsto> ratio_diff S volumes ii jj, (jj, ii) \<mapsto> - ratio_diff S volumes ii jj))"
      using l ni cells_ok_step [OF ck ij(2)] tv by (simp add: u)
    with b show "\<exists>s'. GradientStepWeights_upper S volumes SE ii jj s = Inr s' \<and> ?I (jj + 1) s'"
      unfolding s by blast
  qed
  then show ?thesis by auto
qed

lemma lower_loop:
  assumes i: "0 \<le> ii" "ii < NRegions S"
    and len: "int (length totals) = NRegions S"
    and c: "cells_ok S volumes SE ii (NRegions S) M"
  shows "\<exists>totals'.
           for_loop [0 .. ii - 1] (GradientStepWeights_lower ii) (totals, M) = Inr (totals', M)
           \<and> int (length totals') = NRegions S
           \<and> totals' ! nat ii = foldl (+) (totals ! nat ii) (map (weight_term S volumes SE ii) [0 .. ii - 1])"
proof -
  let ?I = "\<lambda>j (t, M'). int (length t) = NRegions S
              \<and> t ! nat ii = foldl (+) (totals ! nat ii) (map (weight_term S volumes SE ii) [0 .. j - 1])
              \<and> M' = M"
  have "\<exists>s'. for_loop [0 .. ii - 1] (GradientStepWeights_lower ii) (totals, M) = Inr s' \<and> ?I (ii - 1 + 1) s'"
  proof (rule for_loop_range [where I = ?I])
    show "0 \<le> ii - 1 + 1" using i by simp
    show "?I 0 (totals, M)" using len by simp
  next
    fix jj and s :: "double list \<times> Mult_Array \<times> Mult_Array \<times> Mult_Array"
    assume jj: "0 \<le> jj" "jj \<le> ii - 1" and I: "?I jj s"
    obtain t A B C where s: "s = (t, A, B, C)" by (cases s) auto
    from I s have l: "int (length t) = NRegions S"
      and tv: "t ! nat ii = foldl (+) (totals ! nat ii) (map (weight_term S volumes SE ii) [0 .. jj - 1])"
      and M: "M = (A, B, C)"
      by simp_all
    from c M have ck: "cells_ok S volumes SE ii (NRegions S) (A, B, C)" by simp
    have side: "0 \<le> jj" "jj < NRegions S" "ii \<noteq> jj"
      "min ii jj < ii \<or> (min ii jj = ii \<and> max ii jj < NRegions S)"
      using i jj by simp_all
    note cell = cells_okD [OF ck i side]
    note b = lower_body [where SE = SE and volumes = volumes and S = S and totals = t and integrals = A
        and dst = B and InvAreaDist = C and ii = ii and jj = jj, OF i l cell]
    have ni: "nat ii < length t" using i l by simp
    have u: "[0 .. jj] = [0 .. jj - 1] @ [jj]" using jj(1) by (simp add: upto_rec2)
    have "?I (jj + 1) (t[nat ii := t ! nat ii + weight_term S volumes SE ii jj], A, B, C)"
      using l ni M tv by (simp add: u)
    with b show "\<exists>s'. GradientStepWeights_lower ii jj s = Inr s' \<and> ?I (jj + 1) s'"
      unfolding s by blast
  qed
  then show ?thesis by auto
qed

lemma upd1_other: "p \<noteq> k \<Longrightarrow> (f(k \<mapsto> x)) p = f p"
  by simp

lemma cells_ok_diag:
  assumes "cells_ok S volumes SE k j (A, B, C)"
  shows "cells_ok S volumes SE k j (A((i, i) \<mapsto> x), B((i, i) \<mapsto> y), C((i, i) \<mapsto> z))"
  unfolding cells_ok_def prod.case
proof (intro allI impI)
  fix a b
  assume h: "0 \<le> a \<and> a < NRegions S \<and> 0 \<le> b \<and> b < NRegions S \<and> a \<noteq> b
            \<and> (min a b < k \<or> (min a b = k \<and> max a b < j))"
  then have r: "0 \<le> a" "a < NRegions S" "0 \<le> b" "b < NRegions S" "a \<noteq> b"
    and m: "min a b < k \<or> (min a b = k \<and> max a b < j)"
    by simp_all
  from r(5) have n: "(a, b) \<noteq> (i, i)" by auto
  note c = cells_okD [OF assms r m]
  show "(A((i, i) \<mapsto> x)) (a, b) = Some (edge_integral S SE a b)
        \<and> (B((i, i) \<mapsto> y)) (a, b) = Some (Distance (Centers S ! nat a) (Centers S ! nat b))
        \<and> (C((i, i) \<mapsto> z)) (a, b) = Some (ratio_diff S volumes a b)"
    unfolding upd1_other [OF n] using c by (intro conjI)
qed

lemma cells_ok_next_row:
  assumes "cells_ok S volumes SE ii (NRegions S) (A, B, C)"
  shows "cells_ok S volumes SE (ii + 1) (ii + 1 + 1) (A, B, C)"
  unfolding cells_ok_def prod.case
proof (intro allI impI)
  fix a b
  assume h: "0 \<le> a \<and> a < NRegions S \<and> 0 \<le> b \<and> b < NRegions S \<and> a \<noteq> b
            \<and> (min a b < ii + 1 \<or> (min a b = ii + 1 \<and> max a b < ii + 1 + 1))"
  then have r: "0 \<le> a" "a < NRegions S" "0 \<le> b" "b < NRegions S" "a \<noteq> b" by simp_all
  from h have m: "min a b < ii \<or> (min a b = ii \<and> max a b < NRegions S)"
    by (auto simp: min_def max_def split: if_splits)
  note c = cells_okD [OF assms r m]
  then show "A (a, b) = Some (edge_integral S SE a b)
        \<and> B (a, b) = Some (Distance (Centers S ! nat a) (Centers S ! nat b))
        \<and> C (a, b) = Some (ratio_diff S volumes a b)"
    by (intro conjI)
qed

lemma weights_row:
  assumes ok: "weights_input_ok S volumes SE"
    and i: "0 \<le> ii" "ii < NRegions S"
    and len: "int (length totals) = NRegions S" and lw: "int (length Ws) = NRegions S"
    and w: "Ws ! nat ii = Weights S ! nat ii"
    and c: "cells_ok S volumes SE ii (ii + 1) (A, B, C)"
  shows "\<exists>totals' A' B' C'.
           GradientStepWeights_ii S volumes SE ii (totals, A, B, C, Ws)
             = Inr (totals', A', B', C', Ws[nat ii := new_weight S volumes SE ii])
           \<and> int (length totals') = NRegions S
           \<and> cells_ok S volumes SE (ii + 1) (ii + 1 + 1) (A', B', C')"
proof -
  let ?t0 = "totals[nat ii := Fin 0]"
  let ?M0 = "(A((ii, ii) \<mapsto> Fin 0), B((ii, ii) \<mapsto> Fin 0), C((ii, ii) \<mapsto> Fin 0))"
  have ni: "nat ii < length totals" using i len by simp
  have l0: "int (length ?t0) = NRegions S" using len by simp
  have z0: "?t0 ! nat ii = Fin 0" using ni by simp
  have c0: "cells_ok S volumes SE ii (ii + 1) ?M0" using c by (rule cells_ok_diag)
  from upper_loop [OF ok i l0 z0 c0] obtain t1 M1 where
    u: "for_loop [ii + 1 .. NRegions S - 1] (GradientStepWeights_upper S volumes SE ii) (?t0, ?M0) = Inr (t1, M1)"
    and l1: "int (length t1) = NRegions S"
    and v1: "t1 ! nat ii = foldl (+) (Fin 0) (map (weight_term S volumes SE ii) [ii + 1 .. NRegions S - 1])"
    and c1: "cells_ok S volumes SE ii (NRegions S) M1"
    by blast
  from lower_loop [OF i l1 c1] obtain t2 where
    lo: "for_loop [0 .. ii - 1] (GradientStepWeights_lower ii) (t1, M1) = Inr (t2, M1)"
    and l2: "int (length t2) = NRegions S"
    and v2: "t2 ! nat ii = foldl (+) (t1 ! nat ii) (map (weight_term S volumes SE ii) [0 .. ii - 1])"
    by blast
  have tot: "t2 ! nat ii = weight_total S volumes SE ii"
    unfolding v2 v1 by (simp add: weight_total_def other_regions_def)
  obtain A1 B1 C1 where M1: "M1 = (A1, B1, C1)" by (cases M1)
  from ok have lc: "int (length (Covering S)) = NRegions S" by (simp add: weights_input_ok_def)
  have rd: "vec_at (Covering S) ii = Inr (Covering S ! nat ii)" "vec_at Ws ii = Inr (Ws ! nat ii)"
    "vec_at t2 ii = Inr (t2 ! nat ii)"
    using i lc lw l2 by (simp_all add: vec_at_def)
  have p0: "vec_put totals ii (Fin 0) = Inr ?t0" using i len by (simp add: vec_put_def)
  have pw: "vec_put Ws ii x = Inr (Ws[nat ii := x])" for x using i lw by (simp add: vec_put_def)
  have "GradientStepWeights_ii S volumes SE ii (totals, A, B, C, Ws)
      = Inr (t2, A1, B1, C1, Ws[nat ii := new_weight S volumes SE ii])"
    unfolding GradientStepWeights_ii_def
    using u lo by (simp add: p0 Let_def M1 rd pw tot w new_weight_def plus_neg_times)
  moreover have "cells_ok S volumes SE (ii + 1) (ii + 1 + 1) (A1, B1, C1)"
    using c1 unfolding M1 by (rule cells_ok_next_row)
  ultimately show ?thesis using l2 by blast
qed

lemma weights_loop:
  assumes ok: "weights_input_ok S volumes SE"
  shows "GradientStepWeights S volumes SE
       = Inr (S\<lparr>Weights := map (\<lambda>i. new_weight S volumes SE (int i)) [0 ..< nat (NRegions S)]\<rparr>)"
proof -
  from ok have n0: "0 \<le> NRegions S" and lw: "int (length (Weights S)) = NRegions S"
    by (simp_all add: weights_input_ok_def)
  let ?I = "\<lambda>ii (t, A, B, C, Ws). int (length t) = NRegions S \<and> int (length Ws) = NRegions S
              \<and> cells_ok S volumes SE ii (ii + 1) (A, B, C)
              \<and> (\<forall>k. 0 \<le> k \<and> k < NRegions S \<longrightarrow>
                    Ws ! nat k = (if k < ii then new_weight S volumes SE k else Weights S ! nat k))"
  have "\<exists>s'. for_loop [0 .. NRegions S - 1] (GradientStepWeights_ii S volumes SE)
                (replicate (nat (NRegions S)) (Fin 0), Map.empty, Map.empty, Map.empty, Weights S) = Inr s'
          \<and> ?I (NRegions S - 1 + 1) s'"
  proof (rule for_loop_range [where I = ?I])
    show "0 \<le> NRegions S - 1 + 1" using n0 by simp
    have "cells_ok S volumes SE 0 (0 + 1) (Map.empty, Map.empty, Map.empty)"
      by (auto simp add: cells_ok_def)
    then show "?I 0 (replicate (nat (NRegions S)) (Fin 0), Map.empty, Map.empty, Map.empty, Weights S)"
      using n0 lw by simp
  next
    fix ii and s :: "double list \<times> Mult_Array \<times> Mult_Array \<times> Mult_Array \<times> double list"
    assume ii: "0 \<le> ii" "ii \<le> NRegions S - 1" and I: "?I ii s"
    obtain t A B C Ws where s: "s = (t, A, B, C, Ws)" by (cases s) auto
    from I s have l: "int (length t) = NRegions S" and lW: "int (length Ws) = NRegions S"
      and c: "cells_ok S volumes SE ii (ii + 1) (A, B, C)"
      and W: "\<forall>k. 0 \<le> k \<and> k < NRegions S \<longrightarrow>
                    Ws ! nat k = (if k < ii then new_weight S volumes SE k else Weights S ! nat k)"
      by simp_all
    have i: "0 \<le> ii" "ii < NRegions S" using ii by simp_all
    from W i have w: "Ws ! nat ii = Weights S ! nat ii" by simp
    from weights_row [OF ok i l lW w c] obtain t' A' B' C' where
      st: "GradientStepWeights_ii S volumes SE ii (t, A, B, C, Ws)
             = Inr (t', A', B', C', Ws[nat ii := new_weight S volumes SE ii])"
      and l': "int (length t') = NRegions S"
      and c': "cells_ok S volumes SE (ii + 1) (ii + 1 + 1) (A', B', C')"
      by blast
    have W': "\<forall>k. 0 \<le> k \<and> k < NRegions S \<longrightarrow>
                (Ws[nat ii := new_weight S volumes SE ii]) ! nat k
                  = (if k < ii + 1 then new_weight S volumes SE k else Weights S ! nat k)"
    proof (intro allI impI)
      fix k assume k: "0 \<le> k \<and> k < NRegions S"
      have ni: "nat ii < length Ws" using i lW by simp
      show "(Ws[nat ii := new_weight S volumes SE ii]) ! nat k
                  = (if k < ii + 1 then new_weight S volumes SE k else Weights S ! nat k)"
      proof (cases "k = ii")
        case True
        with ni show ?thesis by simp
      next
        case False
        with k i have "nat ii \<noteq> nat k" by (simp add: eq_nat_nat_iff)
        with W k False show ?thesis by simp
      qed
    qed
    from st l' c' W' lW show "\<exists>s'. GradientStepWeights_ii S volumes SE ii s = Inr s' \<and> ?I (ii + 1) s'"
      unfolding s by simp
  qed
  then obtain t A B C Ws where
    r: "for_loop [0 .. NRegions S - 1] (GradientStepWeights_ii S volumes SE)
          (replicate (nat (NRegions S)) (Fin 0), Map.empty, Map.empty, Map.empty, Weights S)
        = Inr (t, A, B, C, Ws)"
    and lW: "int (length Ws) = NRegions S"
    and W: "\<forall>k. 0 \<le> k \<and> k < NRegions S \<longrightarrow> Ws ! nat k = new_weight S volumes SE k"
    by auto
  have "Ws = map (\<lambda>i. new_weight S volumes SE (int i)) [0 ..< nat (NRegions S)]"
  proof (rule nth_equalityI)
    show "length Ws = length (map (\<lambda>i. new_weight S volumes SE (int i)) [0 ..< nat (NRegions S)])"
      using lW by simp
    fix n assume "n < length Ws"
    with lW have n: "0 \<le> int n \<and> int n < NRegions S" by simp
    with W have "Ws ! nat (int n) = new_weight S volumes SE (int n)" by blast
    moreover from n have "n < nat (NRegions S)" by simp
    ultimately show "Ws ! n = map (\<lambda>i. new_weight S volumes SE (int i)) [0 ..< nat (NRegions S)] ! n"
      by simp
  qed
  with r n0 show ?thesis by (simp add: GradientStepWeights_def)
qed

lemma foldl_skip_zero:
  assumes "\<forall>x \<in> set xs. \<not> P x \<longrightarrow> f x = Fin 0"
  shows "foldl (+) a (map f xs) = foldl (+) a (map f (filter P xs))"
  using assms by (induction xs arbitrary: a) (simp_all add: add_zero_double)

lemma finite_times_zero: "is_finite a \<Longrightarrow> a * Fin 0 = Fin 0"
  by (cases a) simp_all

lemma edge_integral_undefined:
  assumes "\<not> edge_defined SE i j"
  shows "edge_integral S SE i j = Fin 0"
proof (cases "graph_at SE (min i j) (max i j)")
  case (Inl e)
  then show ?thesis by (simp add: edge_integral_def)
next
  case (Inr e)
  with assms have "isinf (xc (snd e))" by (simp add: edge_defined_def)
  with Inr show ?thesis by (simp add: edge_integral_def)
qed

lemma neighbour_total_eq:
  assumes "\<forall>j \<in> set (other_regions S i). \<not> edge_defined SE i j \<longrightarrow> is_finite (weight_factor S volumes i j)"
  shows "weight_total S volumes SE i = neighbour_total S volumes SE i"
  unfolding weight_total_def neighbour_total_def
proof (rule foldl_skip_zero, intro ballI impI)
  fix j assume "j \<in> set (other_regions S i)" "\<not> edge_defined SE i j"
  with assms have "is_finite (weight_factor S volumes i j)" "edge_integral S SE i j = Fin 0"
    by (simp_all add: edge_integral_undefined)
  then show "weight_term S volumes SE i j = Fin 0"
    by (simp add: weight_term_def finite_times_zero)
qed


lemma upto_small:
  "[1 .. (2::int)] = [1, 2]" "[2 .. (2::int)] = [2]" "[0 .. (0::int)] = [0]" "[0 .. (1::int)] = [0, 1]"
  "[3 .. (2::int)] = []" "[0 .. (-1::int)] = []" "[1 .. (1::int)] = [1]" "[2 .. (1::int)] = []"
  by (simp_all add: upto_rec1)

lemma interp_uniform:
  assumes "0 \<le> a" "a < 1" "0 \<le> b" "b < 1"
  shows "InterpolateValue (SetVolumeLowerBound uniform_density vlb) (Point (Fin a) (Fin b)) = Inr (Fin 1)"
proof -
  have "\<lfloor>a\<rfloor> = 0" "\<lfloor>b\<rfloor> = 0" using assms by (simp_all add: floor_eq_iff)
  then show ?thesis
    using assms
    by (simp add: InterpolateValue_def SetVolumeLowerBound_def uniform_density_def ConvertIndextoWorld_def
          Let_def vec_at_def of_int_double_def signed_divide_int_def signed_modulo_int_def)
qed

lemma line_integral_vertical:
  assumes "0 \<le> a" "a < 1"
  shows "LineIntegral (SetVolumeLowerBound uniform_density vlb) (Fin (1 / 2))
           (Point (Fin a) (Fin 0)) (Point (Fin a) (Fin 1)) = Inr (Fin (1 / 2))"
proof -
  have p: "InterpolateValue (SetVolumeLowerBound uniform_density vlb) (Point (Fin a) (Fin 0)) = Inr (Fin 1)"
    using assms by (intro interp_uniform) simp_all
  have q: "InterpolateValue (SetVolumeLowerBound uniform_density vlb) (Point (Fin a) (Fin (1 / 2))) = Inr (Fin 1)"
    using assms by (intro interp_uniform) simp_all
  have v: "Values (SetVolumeLowerBound uniform_density vlb) \<noteq> []"
    by (simp add: SetVolumeLowerBound_def uniform_density_def)
  have d: "Distance (Point (Fin a) (Fin 0)) (Point (Fin a) (Fin 1)) = Fin 1" by (simp add: Distance_def)
  have l2: "LineIntegral_loop (SetVolumeLowerBound uniform_density vlb) (1 / 2) (Point (Fin a) (Fin 0)) (Point (Fin a) (Fin 1)) (1 / 2)
              (Fin 2, Fin 1) = Inr (Fin 2, Fin 1)"
    by simp
  have l1: "LineIntegral_loop (SetVolumeLowerBound uniform_density vlb) (1 / 2) (Point (Fin a) (Fin 0)) (Point (Fin a) (Fin 1)) 0
              (Fin 0, Fin 1) = Inr (Fin 2, Fin 1)"
    by (subst LineIntegral_loop.simps) (simp add: q l2 del: LineIntegral_loop.simps)
  show ?thesis
    by (simp add: LineIntegral_def v p l1 d del: LineIntegral_loop.simps)
qed

lemma three_distances:
  "Distance (Point (Fin (1 / 4)) (Fin (1 / 2))) (Point (Fin (1 / 2)) (Fin (1 / 2))) = Fin (1 / 4)"
  "Distance (Point (Fin (1 / 4)) (Fin (1 / 2))) (Point (Fin (3 / 4)) (Fin (1 / 2))) = Fin (1 / 2)"
  "Distance (Point (Fin (1 / 2)) (Fin (1 / 2))) (Point (Fin (3 / 4)) (Fin (1 / 2))) = Fin (1 / 4)"
  "Distance (Point (Fin (1 / 2)) (Fin (1 / 2))) (Point (Fin (1 / 4)) (Fin (1 / 2))) = Fin (1 / 4)"
proof -
  have "rdist (1 / 4) (1 / 2) (1 / 2) (1 / 2) = 1 / 4" "rdist (1 / 4) (1 / 2) (3 / 4) (1 / 2) = 1 / 2"
    "rdist (1 / 2) (1 / 2) (3 / 4) (1 / 2) = 1 / 4" "rdist (1 / 2) (1 / 2) (1 / 4) (1 / 2) = 1 / 4"
    by (rule rdist_val; simp)+
  then show
    "Distance (Point (Fin (1 / 4)) (Fin (1 / 2))) (Point (Fin (1 / 2)) (Fin (1 / 2))) = Fin (1 / 4)"
    "Distance (Point (Fin (1 / 4)) (Fin (1 / 2))) (Point (Fin (3 / 4)) (Fin (1 / 2))) = Fin (1 / 2)"
    "Distance (Point (Fin (1 / 2)) (Fin (1 / 2))) (Point (Fin (3 / 4)) (Fin (1 / 2))) = Fin (1 / 4)"
    "Distance (Point (Fin (1 / 2)) (Fin (1 / 2))) (Point (Fin (1 / 4)) (Fin (1 / 2))) = Fin (1 / 4)"
    by (simp_all add: Distance_rdist)
qed

lemma three_edges:
  "graph_at three_graph 0 1 = Inr (Point (Fin (3 / 8)) (Fin 0), Point (Fin (3 / 8)) (Fin 1))"
  "graph_at three_graph 0 2 = Inr no_edge"
  "graph_at three_graph 1 2 = Inr (Point (Fin (5 / 8)) (Fin 0), Point (Fin (5 / 8)) (Fin 1))"
  by (simp_all add: graph_at_def three_graph_def vec_at_def)

lemma no_edge_inf: "isinf (xc (snd no_edge))"
  by (simp add: no_edge_def Point_default_def INFINITY_def)

lemma three_integrals:
  "LineIntegral (Prior three_regions) (line_int_step (Alg_Params three_regions))
     (Point (Fin (3 / 8)) (Fin 0)) (Point (Fin (3 / 8)) (Fin 1)) = Inr (Fin (1 / 2))"
  "LineIntegral (Prior three_regions) (line_int_step (Alg_Params three_regions))
     (Point (Fin (5 / 8)) (Fin 0)) (Point (Fin (5 / 8)) (Fin 1)) = Inr (Fin (1 / 2))"
  by (simp_all add: three_regions_def line_integral_vertical)

lemma three_input_ok: "weights_input_ok three_regions three_volumes three_graph"
  unfolding weights_input_ok_def
proof (intro conjI allI impI)
  fix i j :: int
  assume "0 \<le> i \<and> i < j \<and> j < NRegions three_regions"
  then have "(i = 0 \<and> j = 1) \<or> (i = 0 \<and> j = 2) \<or> (i = 1 \<and> j = 2)"
    by (auto simp add: three_regions_def)
  then show "\<exists>e. graph_at three_graph i j = Inr e
          \<and> (\<not> isinf (xc (snd e)) \<longrightarrow>
               (\<exists>v. LineIntegral (Prior three_regions) (line_int_step (Alg_Params three_regions)) (fst e) (snd e)
                     = Inr v))"
    by (elim disjE conjE) (simp_all add: three_edges three_integrals no_edge_inf)
qed (simp_all add: three_regions_def three_volumes_def)

lemma three_edge_integrals:
  "edge_integral three_regions three_graph 0 1 = Fin (1 / 2)"
  "edge_integral three_regions three_graph 0 2 = Fin 0"
  "edge_integral three_regions three_graph 1 2 = Fin (1 / 2)"
  "edge_integral three_regions three_graph 1 0 = Fin (1 / 2)"
  by (simp_all add: edge_integral_def three_edges three_integrals no_edge_inf)

lemma three_factors:
  "weight_factor three_regions three_volumes 0 1 = Fin (- 2047)"
  "weight_factor three_regions three_volumes 0 2 = Fin (- 512)"
  "weight_factor three_regions three_volumes 1 2 = Fin 1023"
  "weight_factor three_regions three_volumes 1 0 = Fin 2047"
  by (simp_all add: weight_factor_def ratio_diff_def three_regions_def three_volumes_def three_distances)

lemma three_totals:
  "weight_total three_regions three_volumes three_graph 0 = Fin (- (2047 / 2))"
  "weight_total three_regions three_volumes three_graph 1 = Fin 1535"
  by (simp_all add: weight_total_def other_regions_def weight_term_def three_factors three_edge_integrals
        upto_small three_regions_def [THEN arg_cong, of NRegions])

lemma three_new_weights:
  "map (\<lambda>i. new_weight three_regions three_volumes three_graph (int i)) [0 ..< nat (NRegions three_regions)]
   = [Fin (2047 / 4), Fin (- (1535 / 2)), Fin 1]"
proof -
  have n: "[0 ..< nat (NRegions three_regions)] = [0, 1, 2]"
    by (simp add: three_regions_def upt_rec)
  have c: "GetNVertices (Covering three_regions ! 0) \<noteq> 0" "GetNVertices (Covering three_regions ! 1) \<noteq> 0"
    "GetNVertices (Covering three_regions ! 2) = 0"
    by (simp_all add: three_regions_def GetNVertices_def NPoly_def small_triangle_def unit_square_def
          empty_poly_def)
  have w: "Weights three_regions = [Fin 0, Fin 0, Fin 0]"
    "weights_step (Alg_Params three_regions) = Fin (1 / 2)"
    by (simp_all add: three_regions_def)
  show ?thesis
    unfolding n using c by (simp add: new_weight_def w three_totals)
qed


lemma twin_input_ok: "weights_input_ok twin_regions twin_volumes twin_graph"
  unfolding weights_input_ok_def
proof (intro conjI allI impI)
  fix i j :: int
  assume "0 \<le> i \<and> i < j \<and> j < NRegions twin_regions"
  then have "i = 0 \<and> j = 1" by (auto simp add: twin_regions_def)
  then show "\<exists>e. graph_at twin_graph i j = Inr e
          \<and> (\<not> isinf (xc (snd e)) \<longrightarrow>
               (\<exists>v. LineIntegral (Prior twin_regions) (line_int_step (Alg_Params twin_regions)) (fst e) (snd e)
                     = Inr v))"
    by (simp add: graph_at_def twin_graph_def vec_at_def no_edge_inf)
qed (simp_all add: twin_regions_def twin_volumes_def)


end
